theory Spec2Isabelle
  imports Main "HOL-Library.AList"
begin

section \<open>JavaScript values\<close>

text \<open>
  The broker is dynamically typed: an inbound frame is whatever \<^verbatim>\<open>JSON.parse\<close> returns, a
  stored message is an object, and the code tests values with \<^verbatim>\<open>!x\<close>, \<^verbatim>\<open>typeof x\<close>,
  \<^verbatim>\<open>x || y\<close> and \<^verbatim>\<open>===\<close>. The values are modelled as a datatype with exactly these
  operations. Numbers are the integer-valued ones (\<^typ>\<open>int\<close>). A string is the sequence
  of bytes of its UTF-8 encoding. \<open>JUndefined\<close> is what reading a missing property gives.
\<close>

datatype jsval =
    JUndefined
  | JNull
  | JBool bool
  | JNum int
  | JStr string
  | JArr "jsval list"
  | JObj "(string \<times> jsval) list"

text \<open>\<^verbatim>\<open>data.key\<close> on a value that is neither \<^verbatim>\<open>null\<close> nor \<^verbatim>\<open>undefined\<close> (on those the
  read throws, and every caller below tests for them first): own properties of a parsed
  object, nothing else has the keys the broker reads.\<close>

fun getProp :: "jsval \<Rightarrow> string \<Rightarrow> jsval" where
  "getProp (JObj fields) k = (case map_of fields k of None \<Rightarrow> JUndefined | Some v \<Rightarrow> v)"
| "getProp _ k = JUndefined"

fun truthy :: "jsval \<Rightarrow> bool" where
  "truthy JUndefined = False"
| "truthy JNull = False"
| "truthy (JBool b) = b"
| "truthy (JNum n) = (n \<noteq> 0)"
| "truthy (JStr s) = (s \<noteq> [])"
| "truthy (JArr _) = True"
| "truthy (JObj _) = True"

fun typeof :: "jsval \<Rightarrow> string" where
  "typeof JUndefined = ''undefined''"
| "typeof JNull = ''object''"
| "typeof (JBool _) = ''boolean''"
| "typeof (JNum _) = ''number''"
| "typeof (JStr _) = ''string''"
| "typeof (JArr _) = ''object''"
| "typeof (JObj _) = ''object''"

text \<open>\<^verbatim>\<open>a === b\<close>. Two arrays or objects are equal only when they are the same reference; a
  stored value and a freshly parsed one never are.\<close>

fun strict_eq :: "jsval \<Rightarrow> jsval \<Rightarrow> bool" where
  "strict_eq JUndefined JUndefined = True"
| "strict_eq JNull JNull = True"
| "strict_eq (JBool a) (JBool b) = (a = b)"
| "strict_eq (JNum a) (JNum b) = (a = b)"
| "strict_eq (JStr a) (JStr b) = (a = b)"
| "strict_eq _ _ = False"

text \<open>\<^verbatim>\<open>a || b\<close>\<close>

definition js_or :: "jsval \<Rightarrow> jsval \<Rightarrow> jsval" where
  "js_or a b = (if truthy a then a else b)"

text \<open>
  \<^verbatim>\<open>String.prototype.trim\<close> removes the code points of WhiteSpace and LineTerminator from
  both ends. These are U+0009 to U+000D, U+0020, U+00A0, U+1680, U+2000 to U+200A, U+2028,
  U+2029, U+202F, U+205F, U+3000 and U+FEFF; \<open>whiteSpace\<close> lists their UTF-8 encodings. In
  well-formed UTF-8 no encoding is the beginning or the end of another code point's, so
  stripping encodings from the ends of the byte sequence strips the code points.
\<close>

definition whiteSpace :: "string list" where
  "whiteSpace =
     [[CHR 0x09], [CHR 0x0A], [CHR 0x0B], [CHR 0x0C], [CHR 0x0D], [CHR 0x20],
      [CHR 0xC2, CHR 0xA0],
      [CHR 0xE1, CHR 0x9A, CHR 0x80],
      [CHR 0xE2, CHR 0x80, CHR 0x80], [CHR 0xE2, CHR 0x80, CHR 0x81],
      [CHR 0xE2, CHR 0x80, CHR 0x82], [CHR 0xE2, CHR 0x80, CHR 0x83],
      [CHR 0xE2, CHR 0x80, CHR 0x84], [CHR 0xE2, CHR 0x80, CHR 0x85],
      [CHR 0xE2, CHR 0x80, CHR 0x86], [CHR 0xE2, CHR 0x80, CHR 0x87],
      [CHR 0xE2, CHR 0x80, CHR 0x88], [CHR 0xE2, CHR 0x80, CHR 0x89],
      [CHR 0xE2, CHR 0x80, CHR 0x8A],
      [CHR 0xE2, CHR 0x80, CHR 0xA8], [CHR 0xE2, CHR 0x80, CHR 0xA9],
      [CHR 0xE2, CHR 0x80, CHR 0xAF],
      [CHR 0xE2, CHR 0x81, CHR 0x9F],
      [CHR 0xE3, CHR 0x80, CHR 0x80],
      [CHR 0xEF, CHR 0xBB, CHR 0xBF]]"

text \<open>Removing from the front of a string, as long as there is one, any of the given
  non-empty sequences.\<close>

fun strip :: "string list \<Rightarrow> string \<Rightarrow> string" where
  "strip seqs [] = []"
| "strip seqs (c # cs) =
     (case List.find (\<lambda>w. w \<noteq> [] \<and> take (length w) (c # cs) = w) seqs of
        None \<Rightarrow> c # cs
      | Some w \<Rightarrow> strip seqs (drop (length w - 1) cs))"

definition trim :: "string \<Rightarrow> string" where
  "trim s = rev (strip (map rev whiteSpace) (rev (strip whiteSpace s)))"


text \<open>\<^verbatim>\<open>Array.prototype.findIndex\<close> with a callback that may throw: the error of the first
  call that throws, else the first index whose element satisfies the callback, else
  \<open>-1\<close>.\<close>

fun findIndex :: "('a \<Rightarrow> 'e + bool) \<Rightarrow> 'a list \<Rightarrow> 'e + int" where
  "findIndex P [] = Inr (- 1)"
| "findIndex P (x # xs) =
     (case P x of
        Inl err \<Rightarrow> Inl err
      | Inr True \<Rightarrow> Inr 0
      | Inr False \<Rightarrow>
          (case findIndex P xs of
             Inl err \<Rightarrow> Inl err
           | Inr r \<Rightarrow> Inr (if r = - 1 then - 1 else r + 1)))"

text \<open>\<^verbatim>\<open>Array.prototype.slice(start, end)\<close>: a negative bound counts from the end, both
  bounds are clamped to the array, an absent end is the length.\<close>

definition slice :: "'a list \<Rightarrow> int \<Rightarrow> int option \<Rightarrow> 'a list" where
  "slice xs start endIdx =
     (let len = int (length xs);
          k = (if start < 0 then max (len + start) 0 else min start len);
          relativeEnd = (case endIdx of None \<Rightarrow> len | Some e \<Rightarrow> e);
          final = (if relativeEnd < 0 then max (len + relativeEnd) 0 else min relativeEnd len)
      in take (nat (final - k)) (drop (nat k) xs))"

section \<open>Messages and the environment of one call\<close>

text \<open>A message is an object \<^verbatim>\<open>{type, id, senderId, content, timestamp}\<close>, without
  \<open>senderId\<close> on a SYSTEM notice. The handlers copy \<^verbatim>\<open>data.id\<close> and \<^verbatim>\<open>data.timestamp\<close>
  unchecked, so both are arbitrary values.\<close>

datatype js_error = TypeError | RangeError | WriteError | TableNotFound | DbError string

text \<open>Requests of the Supabase client that the remote store issues, and its reply
  \<^verbatim>\<open>{data, error}\<close>. A request that throws instead of replying ends in the same
  \<^verbatim>\<open>catch\<close> as a reply with an error, and is taken as one.\<close>

datatype sb_query =
    SelectIdLimit1
  | SelectTimestampOf jsval
  | SelectLatest int
  | SelectOlder jsval int
  | InsertRow jsval

record sb_response =
  sb_error :: "string option"
  sb_data :: "jsval list option"

text \<open>What one step reads from outside the process: the clock (\<^verbatim>\<open>Date.now()\<close>), the id
  built from \<^verbatim>\<open>uuidv4()\<close> and the clock, whether each file-system operation fails, the
  replies of the database, and \<^verbatim>\<open>new Date(v).toISOString()\<close>, which throws a RangeError
  (\<open>None\<close>) on an invalid date.\<close>

record env =
  now :: int
  freshId :: string
  mkdirFails :: bool
  readFails :: bool
  writeFails :: bool
  db :: "sb_query \<Rightarrow> sb_response"
  toISOString :: "jsval \<Rightarrow> string option"

section \<open>StorageService: the file-backed store\<close>

text \<open>\<open>fileContent\<close> is the value that the text of the file at \<^verbatim>\<open>storagePath\<close> parses to,
  \<open>None\<close> when the file is missing or does not parse. The file may hold any JSON value:
  \<open>messages\<close> is whatever \<^verbatim>\<open>JSON.parse\<close> gave, an array or not. (A value with no
  \<^verbatim>\<open>undefined\<close> inside, as the handlers build them, is the value its own JSON text parses
  to; \<open>saveMessage\<close> records the written value itself.)\<close>

record StorageService =
  messages :: jsval
  initialized :: bool
  fileContent :: "jsval option"

definition initialize :: "env \<Rightarrow> StorageService \<Rightarrow> StorageService" where
  "initialize e st =
     (if mkdirFails e then st\<lparr>messages := JArr [], initialized := True\<rparr>
      else (case (if readFails e then None else fileContent st) of
              None \<Rightarrow> st\<lparr>messages := JArr [], initialized := True\<rparr>
            | Some parsed \<Rightarrow> st\<lparr>messages := parsed, initialized := True\<rparr>))"

text \<open>\<^verbatim>\<open>this.messages.push(message)\<close> throws a TypeError when \<open>messages\<close> is no array; the
  \<^verbatim>\<open>catch\<close> around it throws the error again.\<close>

definition saveMessage :: "env \<Rightarrow> jsval \<Rightarrow> StorageService \<Rightarrow> (js_error + unit) \<times> StorageService" where
  "saveMessage e message st =
     (let st1 = (if \<not> initialized st then initialize e st else st)
      in case messages st1 of
           JArr items \<Rightarrow>
             (let st2 = st1\<lparr>messages := JArr (items @ [message])\<rparr>
              in if writeFails e then (Inl WriteError, st2)
                 else (Inr (), st2\<lparr>fileContent := Some (messages st2)\<rparr>))
         | _ \<Rightarrow> (Inl TypeError, st1))"

text \<open>The callback \<^verbatim>\<open>msg => msg.id === messageId\<close>: reading \<open>id\<close> from \<^verbatim>\<open>null\<close> throws.\<close>

definition idIs :: "jsval \<Rightarrow> jsval \<Rightarrow> js_error + bool" where
  "idIs messageId msg =
     (if msg = JNull \<or> msg = JUndefined then Inl TypeError
      else Inr (strict_eq (getProp msg ''id'') messageId))"

text \<open>Whatever is thrown inside the \<^verbatim>\<open>try\<close> of \<open>getMessagesBefore\<close> (\<open>messages\<close> has no
  \<open>findIndex\<close>, or the callback throws) is caught, and the result is \<open>[]\<close>.\<close>

definition getMessagesBefore :: "env \<Rightarrow> jsval \<Rightarrow> int \<Rightarrow> StorageService \<Rightarrow> jsval list \<times> StorageService" where
  "getMessagesBefore e messageId limit st =
     (let st1 = (if \<not> initialized st then initialize e st else st)
      in case messages st1 of
           JArr items \<Rightarrow>
             (case findIndex (idIs messageId) items of
                Inl err \<Rightarrow> ([], st1)
              | Inr messageIndex \<Rightarrow>
                  if messageIndex = - 1 then (slice items (- limit) None, st1)
                  else (let startIndex = max 0 (messageIndex - limit)
                        in (slice items startIndex (Some messageIndex), st1)))
         | _ \<Rightarrow> ([], st1))"


definition clear :: "env \<Rightarrow> StorageService \<Rightarrow> StorageService" where
  "clear e st =
     (let st1 = st\<lparr>messages := JArr []\<rparr>
      in if writeFails e then st1 else st1\<lparr>fileContent := Some (JArr [])\<rparr>)"

text \<open>Saving a sequence of messages one after the other, each call with its own
  environment.\<close>

fun saveAll :: "(env \<times> jsval) list \<Rightarrow> StorageService \<Rightarrow> StorageService" where
  "saveAll [] st = st"
| "saveAll ((e, m) # rest) st = saveAll rest (snd (saveMessage e m st))"

section \<open>SupabaseStorageService: the remote store\<close>

record SupabaseStorageService =
  sb_initialized :: bool

definition sb_initialize ::
  "env \<Rightarrow> SupabaseStorageService \<Rightarrow> (js_error + unit) \<times> SupabaseStorageService" where
  "sb_initialize e st =
     (case sb_error (db e SelectIdLimit1) of
        Some code \<Rightarrow> (Inl (if code = ''42P01'' then TableNotFound else DbError code), st)
      | None \<Rightarrow> (Inr (), st\<lparr>sb_initialized := True\<rparr>))"

definition sb_saveMessage ::
  "env \<Rightarrow> jsval \<Rightarrow> SupabaseStorageService \<Rightarrow> (js_error + unit) \<times> SupabaseStorageService" where
  "sb_saveMessage e message st =
     (case (if \<not> sb_initialized st then sb_initialize e st else (Inr (), st)) of
        (Inl err, st1) \<Rightarrow> (Inl err, st1)
      | (Inr _, st1) \<Rightarrow>
          (case toISOString e (getProp message ''timestamp'') of
             None \<Rightarrow> (Inl RangeError, st1)
           | Some created \<Rightarrow>
               (case sb_error (db e (InsertRow (JObj
                        [(''id'', getProp message ''id''),
                         (''type'', getProp message ''type''),
                         (''sender_id'', js_or (getProp message ''senderId'') JNull),
                         (''content'', getProp message ''content''),
                         (''timestamp'', getProp message ''timestamp''),
                         (''created_at'', JStr created)]))) of
                  Some code \<Rightarrow> (Inl (DbError code), st1)
                | None \<Rightarrow> (Inr (), st1))))"

text \<open>\<open>formatMessages\<close> reads five properties of every record; on a record that is
  \<^verbatim>\<open>null\<close> the read throws.\<close>

definition formatMessages :: "jsval list \<Rightarrow> js_error + jsval list" where
  "formatMessages records =
     (if \<exists>record\<in>set records. record = JNull \<or> record = JUndefined then Inl TypeError
      else Inr (map (\<lambda>record. JObj [(''id'', getProp record ''id''),
                                     (''type'', getProp record ''type''),
                                     (''senderId'', getProp record ''sender_id''),
                                     (''content'', getProp record ''content''),
                                     (''timestamp'', getProp record ''timestamp'')]) records))"

text \<open>What \<open>getMessagesBefore\<close> returns after a request made inside its \<^verbatim>\<open>try\<close>: the
  error of the reply is thrown and caught, and so is an error of
  \<^verbatim>\<open>this.formatMessages(data?.reverse() || [])\<close>; the \<^verbatim>\<open>catch\<close> returns \<open>[]\<close>.\<close>

definition sb_rows :: "sb_response \<Rightarrow> jsval list" where
  "sb_rows r =
     (if sb_error r \<noteq> None then []
      else (case formatMessages (case sb_data r of None \<Rightarrow> [] | Some rows \<Rightarrow> rev rows) of
              Inl err \<Rightarrow> []
            | Inr formatted \<Rightarrow> formatted))"

text \<open>The reply from which \<open>getMessagesBefore\<close> takes its rows. The first request, for
  the timestamp of the message asked for, is made with \<^verbatim>\<open>.single()\<close>: its reply holds one
  record, the first of \<open>sb_data\<close>, or none. When it gives an error or no record, or when
  no id is asked for, the rows are those of the latest messages; else those of the
  messages older than the record.\<close>

definition sb_answer :: "env \<Rightarrow> jsval \<Rightarrow> int \<Rightarrow> sb_response" where
  "sb_answer e messageId limit =
     (if truthy messageId then
        (let target = db e (SelectTimestampOf messageId) in
         case (sb_error target, sb_data target) of
           (None, Some (targetMsg # _)) \<Rightarrow>
             if truthy targetMsg
             then db e (SelectOlder (getProp targetMsg ''timestamp'') limit)
             else db e (SelectLatest limit)
         | _ \<Rightarrow> db e (SelectLatest limit))
      else db e (SelectLatest limit))"

text \<open>\<open>initialize\<close> is awaited before the \<^verbatim>\<open>try\<close>: its error is thrown to the caller.\<close>

definition sb_getMessagesBefore ::
  "env \<Rightarrow> jsval \<Rightarrow> int \<Rightarrow> SupabaseStorageService
     \<Rightarrow> (js_error + jsval list) \<times> SupabaseStorageService" where
  "sb_getMessagesBefore e messageId limit st =
     (case (if \<not> sb_initialized st then sb_initialize e st else (Inr (), st)) of
        (Inl err, st1) \<Rightarrow> (Inl err, st1)
      | (Inr _, st1) \<Rightarrow> (Inr (sb_rows (sb_answer e messageId limit)), st1))"

section \<open>The store behind the handler\<close>

text \<open>\<^verbatim>\<open>createStorageService\<close> gives the handler one of the two stores; the calls
  \<^verbatim>\<open>this.storageService.saveMessage\<close> and \<^verbatim>\<open>this.storageService.getMessagesBefore\<close> go to
  whichever it is.\<close>

datatype storage = FileStorage StorageService | SupabaseStorage SupabaseStorageService

fun storage_saveMessage :: "env \<Rightarrow> jsval \<Rightarrow> storage \<Rightarrow> (js_error + unit) \<times> storage" where
  "storage_saveMessage e m (FileStorage st) =
     (case saveMessage e m st of (r, st') \<Rightarrow> (r, FileStorage st'))"
| "storage_saveMessage e m (SupabaseStorage st) =
     (case sb_saveMessage e m st of (r, st') \<Rightarrow> (r, SupabaseStorage st'))"

fun storage_getMessagesBefore ::
  "env \<Rightarrow> jsval \<Rightarrow> int \<Rightarrow> storage \<Rightarrow> (js_error + jsval list) \<times> storage" where
  "storage_getMessagesBefore e messageId limit (FileStorage st) =
     (case getMessagesBefore e messageId limit st of (ms, st') \<Rightarrow> (Inr ms, FileStorage st'))"
| "storage_getMessagesBefore e messageId limit (SupabaseStorage st) =
     (case sb_getMessagesBefore e messageId limit st of (r, st') \<Rightarrow> (r, SupabaseStorage st'))"

section \<open>SessionManager\<close>

text \<open>A connection handle is an opaque object compared by identity; the model numbers
  them. The registry is a JavaScript \<^verbatim>\<open>Map\<close>, which iterates in insertion order and keeps
  the position of a key whose value is replaced: an association list with
  \<^const>\<open>AList.update\<close>.\<close>

type_synonym ws = nat

record session =
  userId :: string
  ws :: ws
  connectedAt :: int
  lastActivity :: int

type_synonym sessionMap = "(string \<times> session) list"

definition createSession :: "string \<Rightarrow> ws \<Rightarrow> int \<Rightarrow> sessionMap \<Rightarrow> sessionMap" where
  "createSession u w t ss =
     AList.update u \<lparr>userId = u, ws = w, connectedAt = t, lastActivity = t\<rparr> ss"

definition getSession :: "string \<Rightarrow> sessionMap \<Rightarrow> session option" where
  "getSession u ss = map_of ss u"

definition removeSession :: "string \<Rightarrow> sessionMap \<Rightarrow> sessionMap" where
  "removeSession u ss = AList.delete u ss"

fun findUserIdByWs :: "ws \<Rightarrow> sessionMap \<Rightarrow> string option" where
  "findUserIdByWs w [] = None"
| "findUserIdByWs w ((u, session) # rest) =
     (if ws session = w then Some u else findUserIdByWs w rest)"

definition getAllSessions :: "sessionMap \<Rightarrow> session list" where
  "getAllSessions ss = map snd ss"

definition updateActivity :: "string \<Rightarrow> int \<Rightarrow> sessionMap \<Rightarrow> sessionMap" where
  "updateActivity u t ss =
     (case map_of ss u of
        None \<Rightarrow> ss
      | Some session \<Rightarrow> AList.update u (session\<lparr>lastActivity := t\<rparr>) ss)"

section \<open>The server state and the frames it sends\<close>

text \<open>A frame is the object given to \<^verbatim>\<open>JSON.stringify\<close> and then to \<^verbatim>\<open>ws.send\<close>. An ERROR
  frame of \<^verbatim>\<open>sendErrorResponse\<close> carries a timestamp, one sent by a handler does not.\<close>

datatype frame =
    ErrorFrame string "int option"
  | LoginSuccess string
  | HistoryResponse "jsval list" bool
  | MessageFrame jsval

text \<open>
  \<open>readyState\<close> is the state the transport reports for each connection (1 is OPEN). A
  function below returns the new state and the calls of \<^verbatim>\<open>ws.send\<close> it made, in order, as
  pairs of connection and frame; on an open connection the call delivers the frame. The
  transport raises no exception in the model, so a \<^verbatim>\<open>catch\<close> that only guards such a call
  has no branch. No function of the broker closes a connection, and none changes
  \<open>readyState\<close>.

  The handlers are \<^verbatim>\<open>async\<close>. A handler runs without interruption up to an \<^verbatim>\<open>await\<close> of a
  call of the store; there it is suspended, other events are handled, and it goes on
  later, in the state the server has then. A function below is one such stretch: it
  returns, besides state and frames, what remains to be done (\<open>suspended\<close>), or \<open>None\<close>
  when the handler has returned. The call of the store is one step, taken when the call
  is made, and the clock is read once in a stretch.
\<close>

record server =
  sessions :: sessionMap
  storageService :: "storage option"
  readyState :: "ws \<Rightarrow> nat"

type_synonym outbox = "(ws \<times> frame) list"

text \<open>What a suspended handler still has to do:
  \<^item> \<open>AwaitSave message excludeWs\<close>: it awaits \<^verbatim>\<open>saveMessage(message)\<close> and will call
    \<^verbatim>\<open>broadcast(message, excludeWs)\<close>;
  \<^item> \<open>AwaitInitialHistory w u result\<close>: \<open>handleLogin\<close> awaits
    \<^verbatim>\<open>getMessagesBefore(null, 50)\<close>, which gives \<open>result\<close>, for the user \<open>u\<close> on \<open>w\<close>;
  \<^item> \<open>AwaitHistory w limit result\<close>: \<open>handleGetHistory\<close> awaits its query, which gives
    \<open>result\<close>.\<close>

datatype suspended =
    AwaitSave jsval "ws option"
  | AwaitInitialHistory ws string "js_error + jsval list"
  | AwaitHistory ws int "js_error + jsval list"

definition sendErrorResponse :: "env \<Rightarrow> ws \<Rightarrow> string \<Rightarrow> server \<Rightarrow> outbox" where
  "sendErrorResponse e w errorMessage s =
     (if readyState s w = 1 then [(w, ErrorFrame errorMessage (Some (now e)))] else [])"

definition broadcast :: "jsval \<Rightarrow> ws option \<Rightarrow> server \<Rightarrow> outbox" where
  "broadcast message excludeWs s =
     map (\<lambda>session. (ws session, MessageFrame message))
       (filter (\<lambda>session. Some (ws session) \<noteq> excludeWs \<and> readyState s (ws session) = 1)
          (getAllSessions (sessions s)))"

section \<open>MessageHandler\<close>

text \<open>\<^verbatim>\<open>if (this.storageService) { try { await saveMessage(m) } catch { log } }\<close> followed by
  \<^verbatim>\<open>this.broadcast(m, excludeWs)\<close>: without a store the broadcast is made at once, with a
  store the call is made and the handler is suspended.\<close>

definition saveThenBroadcast ::
  "env \<Rightarrow> jsval \<Rightarrow> ws option \<Rightarrow> server \<Rightarrow> server \<times> outbox \<times> suspended option" where
  "saveThenBroadcast e message excludeWs s =
     (case storageService s of
        None \<Rightarrow> (s, broadcast message excludeWs s, None)
      | Some st \<Rightarrow>
          (s\<lparr>storageService := Some (snd (storage_saveMessage e message st))\<rparr>, [],
           Some (AwaitSave message excludeWs)))"

definition systemMessage :: "env \<Rightarrow> string \<Rightarrow> jsval" where
  "systemMessage e text =
     JObj [(''type'', JStr ''SYSTEM''), (''id'', JStr (freshId e)), (''content'', JStr text),
           (''timestamp'', JNum (now e))]"

text \<open>\<open>handleLogin\<close> up to its first \<^verbatim>\<open>await\<close>. \<^verbatim>\<open>userId.trim()\<close> stands before the \<^verbatim>\<open>try\<close>:
  on a truthy value that is not a string the call throws a TypeError out of
  \<open>handleLogin\<close>.\<close>

definition handleLogin ::
  "env \<Rightarrow> ws \<Rightarrow> jsval \<Rightarrow> server \<Rightarrow> js_error + (server \<times> outbox \<times> suspended option)" where
  "handleLogin e w data s =
     (let uid = getProp data ''userId'' in
      if \<not> truthy uid then Inr (s, [(w, ErrorFrame ''Invalid user ID'' None)], None)
      else (case uid of
              JStr u \<Rightarrow>
                if length (trim u) = 0
                then Inr (s, [(w, ErrorFrame ''Invalid user ID'' None)], None)
                else
                  (let s1 = s\<lparr>sessions := createSession u w (now e) (sessions s)\<rparr>
                   in case storageService s1 of
                        None \<Rightarrow>
                          Inr (s1, [(w, LoginSuccess u)]
                                   @ broadcast (systemMessage e (u @ '' joined the chat''))
                                       (Some w) s1,
                               None)
                      | Some st \<Rightarrow>
                          (case storage_getMessagesBefore e JNull 50 st of
                             (result, st') \<Rightarrow>
                               Inr (s1\<lparr>storageService := Some st'\<rparr>, [(w, LoginSuccess u)],
                                    Some (AwaitInitialHistory w u result))))
            | _ \<Rightarrow> Inl TypeError))"

text \<open>\<^verbatim>\<open>if (!userId)\<close> after the reverse lookup: \<^verbatim>\<open>null\<close> and the empty string are falsy.\<close>

definition boundUserId :: "ws \<Rightarrow> server \<Rightarrow> string option" where
  "boundUserId w s =
     (case findUserIdByWs w (sessions s) of
        None \<Rightarrow> None
      | Some u \<Rightarrow> if u = [] then None else Some u)"

text \<open>\<open>handleTextMessage\<close> and \<open>handleMediaMessage\<close> up to their \<^verbatim>\<open>await\<close>.
  \<^verbatim>\<open>data.content.trim()\<close> is inside their \<^verbatim>\<open>try\<close>: on a truthy value that is not a string
  its TypeError is answered by the \<^verbatim>\<open>catch\<close>.\<close>

definition handleTextMessage ::
  "env \<Rightarrow> ws \<Rightarrow> jsval \<Rightarrow> server \<Rightarrow> server \<times> outbox \<times> suspended option" where
  "handleTextMessage e w data s =
     (case boundUserId w s of
        None \<Rightarrow> (s, [(w, ErrorFrame ''Not authenticated'' None)], None)
      | Some u \<Rightarrow>
          (let c = getProp data ''content'' in
           if \<not> truthy c then (s, [(w, ErrorFrame ''Empty message not allowed'' None)], None)
           else (case c of
                   JStr txt \<Rightarrow>
                     if length (trim txt) = 0
                     then (s, [(w, ErrorFrame ''Empty message not allowed'' None)], None)
                     else
                       (let s1 = s\<lparr>sessions := updateActivity u (now e) (sessions s)\<rparr>;
                            message =
                              JObj [(''type'', JStr ''TEXT''),
                                    (''id'', js_or (getProp data ''id'') (JStr (freshId e))),
                                    (''senderId'', JStr u),
                                    (''content'', JStr txt),
                                    (''timestamp'',
                                       js_or (getProp data ''timestamp'') (JNum (now e)))]
                        in saveThenBroadcast e message (Some w) s1)
                 | _ \<Rightarrow> (s, [(w, ErrorFrame ''Failed to send message'' None)], None))))"

definition handleMediaMessage ::
  "env \<Rightarrow> ws \<Rightarrow> jsval \<Rightarrow> server \<Rightarrow> server \<times> outbox \<times> suspended option" where
  "handleMediaMessage e w data s =
     (case boundUserId w s of
        None \<Rightarrow> (s, [(w, ErrorFrame ''Not authenticated'' None)], None)
      | Some u \<Rightarrow>
          (let c = getProp data ''content'' in
           if \<not> truthy c
           then (s, [(w, ErrorFrame ''Empty media content not allowed'' None)], None)
           else (case c of
                   JStr txt \<Rightarrow>
                     if length (trim txt) = 0
                     then (s, [(w, ErrorFrame ''Empty media content not allowed'' None)], None)
                     else
                       (let s1 = s\<lparr>sessions := updateActivity u (now e) (sessions s)\<rparr>;
                            message =
                              JObj [(''type'', getProp data ''type''),
                                    (''id'', js_or (getProp data ''id'') (JStr (freshId e))),
                                    (''senderId'', JStr u),
                                    (''content'', JStr txt),
                                    (''timestamp'',
                                       js_or (getProp data ''timestamp'') (JNum (now e)))]
                        in saveThenBroadcast e message None s1)
                 | _ \<Rightarrow> (s, [(w, ErrorFrame ''Failed to send media message'' None)], None))))"

text \<open>\<^verbatim>\<open>const { lastMessageId, limit = 20 } = data\<close>: the default is taken when the property
  is \<^verbatim>\<open>undefined\<close>. \<open>validateMessage\<close> lets only a number or \<^verbatim>\<open>undefined\<close> through; other
  values are no numbers of the model and are read as absent.\<close>

definition limitOf :: "jsval \<Rightarrow> int" where
  "limitOf data = (case getProp data ''limit'' of JNum n \<Rightarrow> n | _ \<Rightarrow> 20)"

text \<open>\<open>handleGetHistory\<close> up to its \<^verbatim>\<open>await\<close>.\<close>

definition handleGetHistory ::
  "env \<Rightarrow> ws \<Rightarrow> jsval \<Rightarrow> server \<Rightarrow> server \<times> outbox \<times> suspended option" where
  "handleGetHistory e w data s =
     (case boundUserId w s of
        None \<Rightarrow> (s, [(w, ErrorFrame ''Not authenticated'' None)], None)
      | Some u \<Rightarrow>
          (case storageService s of
             None \<Rightarrow> (s, [(w, HistoryResponse [] False)], None)
           | Some st \<Rightarrow>
               (let lastMessageId = getProp data ''lastMessageId'';
                    limit = limitOf data
                in case storage_getMessagesBefore e lastMessageId limit st of
                     (result, st') \<Rightarrow>
                       (s\<lparr>storageService := Some st'\<rparr>, [], Some (AwaitHistory w limit result)))))"

text \<open>A suspended handler goes on, in the state \<open>s\<close> the server has when the awaited call
  has settled:
  \<^item> after \<^verbatim>\<open>saveMessage\<close>, the broadcast over the sessions registered in \<open>s\<close>;
  \<^item> in \<open>handleLogin\<close> after the query, the HISTORY_RESPONSE if the list is not empty (a
    thrown error is logged), then the joined notice is built, saved and broadcast;
  \<^item> in \<open>handleGetHistory\<close> after the query, the response, or the ERROR of its \<^verbatim>\<open>catch\<close>.\<close>

fun resumeHandler :: "env \<Rightarrow> suspended \<Rightarrow> server \<Rightarrow> server \<times> outbox \<times> suspended option" where
  "resumeHandler e (AwaitSave message excludeWs) s = (s, broadcast message excludeWs s, None)"
| "resumeHandler e (AwaitInitialHistory w u result) s =
     (let history =
            (case result of
               Inl err \<Rightarrow> []
             | Inr recentMessages \<Rightarrow>
                 if length recentMessages > 0
                 then [(w, HistoryResponse recentMessages (length recentMessages = 50))]
                 else [])
      in case saveThenBroadcast e (systemMessage e (u @ '' joined the chat'')) (Some w) s of
           (s1, out, rest) \<Rightarrow> (s1, history @ out, rest))"
| "resumeHandler e (AwaitHistory w limit result) s =
     (s,
      (case result of
         Inr msgs \<Rightarrow> [(w, HistoryResponse msgs (int (length msgs) = limit))]
       | Inl err \<Rightarrow> [(w, ErrorFrame ''Failed to retrieve message history'' None)]),
      None)"

definition validateMessage :: "jsval \<Rightarrow> string option" where
  "validateMessage data =
     (if \<not> truthy data \<or> typeof data \<noteq> ''object'' then Some ''Message must be an object''
      else (case getProp data ''type'' of
              JStr t \<Rightarrow>
                if t = [] then Some ''Message must have a valid type field''
                else if t = ''LOGIN'' then
                  (if \<not> truthy (getProp data ''userId'') \<or> typeof (getProp data ''userId'') \<noteq> ''string''
                   then Some ''LOGIN message must have a valid userId field'' else None)
                else if t = ''TEXT'' \<or> t = ''IMAGE'' \<or> t = ''VIDEO'' \<or> t = ''AUDIO'' then
                  (if \<not> truthy (getProp data ''content'') \<or> typeof (getProp data ''content'') \<noteq> ''string''
                   then Some (t @ '' message must have a valid content field'') else None)
                else if t = ''GET_HISTORY'' then
                  (if getProp data ''lastMessageId'' \<noteq> JUndefined
                        \<and> typeof (getProp data ''lastMessageId'') \<noteq> ''string''
                   then Some ''GET_HISTORY message lastMessageId must be a string''
                   else if getProp data ''limit'' \<noteq> JUndefined
                        \<and> typeof (getProp data ''limit'') \<noteq> ''number''
                   then Some ''GET_HISTORY message limit must be a number''
                   else None)
                else if t = ''SYSTEM'' then Some ''SYSTEM messages cannot be sent by clients''
                else None
            | _ \<Rightarrow> Some ''Message must have a valid type field''))"

section \<open>WebSocketServer: dispatch and close\<close>

text \<open>The received data after \<^verbatim>\<open>JSON.parse(data.toString())\<close>: the parse throws, or gives a
  value.\<close>

datatype payload = Unparseable | Parsed jsval

text \<open>The \<^verbatim>\<open>handleMessage\<close> of the server up to the first \<^verbatim>\<open>await\<close> of the handler it
  calls. After \<open>validateMessage\<close> the type is a non-empty string, so the \<^verbatim>\<open>switch\<close> is a
  comparison of strings and the last case of the match below is never taken
  (\<open>validateMessage_type\<close>).\<close>

definition handleMessage_begin ::
  "env \<Rightarrow> ws \<Rightarrow> payload \<Rightarrow> server \<Rightarrow> server \<times> outbox \<times> suspended option" where
  "handleMessage_begin e w data s =
     (case data of
        Unparseable \<Rightarrow> (s, sendErrorResponse e w ''Invalid JSON format'' s, None)
      | Parsed message \<Rightarrow>
          (case validateMessage message of
             Some validationError \<Rightarrow> (s, sendErrorResponse e w validationError s, None)
           | None \<Rightarrow>
               (case getProp message ''type'' of
                  JStr t \<Rightarrow>
                    if t = ''LOGIN'' then
                      (case handleLogin e w message s of
                         Inl err \<Rightarrow> (s, sendErrorResponse e w ''Failed to process message'' s, None)
                       | Inr r \<Rightarrow> r)
                    else if t = ''TEXT'' then handleTextMessage e w message s
                    else if t = ''IMAGE'' \<or> t = ''VIDEO'' \<or> t = ''AUDIO'' then
                      handleMediaMessage e w message s
                    else if t = ''GET_HISTORY'' then handleGetHistory e w message s
                    else if t = ''SYSTEM'' then
                      (s, sendErrorResponse e w ''SYSTEM messages can only be sent by server'' s,
                       None)
                    else (s, sendErrorResponse e w (''Unknown message type: '' @ t) s, None)
                | _ \<Rightarrow> (s, sendErrorResponse e w ''Failed to process message'' s, None))))"

text \<open>One more stretch of a handler that is suspended, in the same environment and with
  no other event in between.\<close>

definition settle ::
  "env \<Rightarrow> server \<times> outbox \<times> suspended option \<Rightarrow> server \<times> outbox \<times> suspended option" where
  "settle e r =
     (case r of
        (s, out, None) \<Rightarrow> (s, out, None)
      | (s, out, Some rest) \<Rightarrow>
          (case resumeHandler e rest s of (s', out', rest') \<Rightarrow> (s', out @ out', rest')))"

text \<open>\<open>handleMessage\<close> is the whole handling of one payload when nothing else happens
  while it is suspended (a handler has two \<^verbatim>\<open>await\<close>s at most): the final state and all
  frames sent.\<close>

definition handleMessage :: "env \<Rightarrow> ws \<Rightarrow> payload \<Rightarrow> server \<Rightarrow> server \<times> outbox" where
  "handleMessage e w data s =
     (case settle e (settle e (handleMessage_begin e w data s)) of (s', out, rest) \<Rightarrow> (s', out))"

text \<open>\<^verbatim>\<open>handleClose\<close> up to its \<^verbatim>\<open>await\<close>; its \<^verbatim>\<open>cleanupConnection\<close> acts on the queue of the
  connection, which is the subject of the next section.\<close>

definition handleClose :: "env \<Rightarrow> ws \<Rightarrow> server \<Rightarrow> server \<times> outbox \<times> suspended option" where
  "handleClose e w s =
     (case boundUserId w s of
        None \<Rightarrow> (s, [], None)
      | Some u \<Rightarrow>
          saveThenBroadcast e (systemMessage e (u @ '' left the chat'')) None
            (s\<lparr>sessions := removeSession u (sessions s)\<rparr>))"

text \<open>The \<^verbatim>\<open>pong\<close> listener of \<^verbatim>\<open>handleConnection\<close>.\<close>

definition handlePong :: "env \<Rightarrow> ws \<Rightarrow> server \<Rightarrow> server" where
  "handlePong e w s =
     (case boundUserId w s of
        None \<Rightarrow> s
      | Some u \<Rightarrow> s\<lparr>sessions := updateActivity u (now e) (sessions s)\<rparr>)"

text \<open>
  The server with its suspended handlers, and its events: a payload begins to be
  handled, a suspended handler goes on (the awaited call has settled), a connection is
  reported closed, a pong arrives, the transport moves a connection to another state.
  The events come in any order, so every interleaving of the handlers is a sequence of
  events.
\<close>

type_synonym broker = "server \<times> suspended list"

datatype event = Message ws payload | Resume nat | Close ws | Pong ws | Transport ws nat

definition suspend :: "suspended option \<Rightarrow> suspended list \<Rightarrow> suspended list" where
  "suspend rest waiting = (case rest of None \<Rightarrow> waiting | Some k \<Rightarrow> waiting @ [k])"

fun step :: "env \<times> event \<Rightarrow> broker \<Rightarrow> broker" where
  "step (e, Message w data) (s, waiting) =
     (case handleMessage_begin e w data s of (s', out, rest) \<Rightarrow> (s', suspend rest waiting))"
| "step (e, Resume i) (s, waiting) =
     (if i < length waiting
      then (case resumeHandler e (waiting ! i) s of
              (s', out, rest) \<Rightarrow>
                (s', suspend rest (take i waiting @ drop (Suc i) waiting)))
      else (s, waiting))"
| "step (e, Close w) (s, waiting) =
     (case handleClose e w s of (s', out, rest) \<Rightarrow> (s', suspend rest waiting))"
| "step (e, Pong w) (s, waiting) = (handlePong e w s, waiting)"
| "step (e, Transport w state) (s, waiting) =
     (s\<lparr>readyState := (readyState s)(w := state)\<rparr>, waiting)"

definition run :: "(env \<times> event) list \<Rightarrow> broker \<Rightarrow> broker" where
  "run evs b = fold step evs b"

section \<open>The inbound queue of one connection\<close>

text \<open>
  \<^verbatim>\<open>messageQueues\<close> maps a connection to one object \<^verbatim>\<open>{queue, processing}\<close>, created by
  \<^verbatim>\<open>handleConnection\<close> and shared by \<^verbatim>\<open>enqueueMessage\<close> and every invocation of
  \<^verbatim>\<open>processMessageQueue\<close> for that connection. An invocation that has passed the test of
  \<open>processing\<close> is suspended at \<^verbatim>\<open>await this.handleMessage(ws, data)\<close> until that promise
  settles; other events of the connection run meanwhile. The state of one connection:
  \<^item> \<open>hasQueue\<close>: the connection is a key of \<^verbatim>\<open>messageQueues\<close>;
  \<^item> \<open>queue\<close>, \<open>processing\<close>: the fields of its object;
  \<^item> \<open>drains\<close>: one entry for each suspended invocation of \<^verbatim>\<open>processMessageQueue\<close>, the
    payload whose \<^verbatim>\<open>handleMessage\<close> it awaits;
  \<^item> \<open>arrived\<close>: the payloads pushed on the queue so far;
  \<^item> \<open>log\<close>: \<open>Begin x\<close> when \<^verbatim>\<open>handleMessage(ws, x)\<close> is called, \<open>Done x\<close> when it has settled.
  \<^verbatim>\<open>handleMessage\<close> catches every exception, so its promise never rejects and the
  \<^verbatim>\<open>finally\<close> block runs only when the loop ends.
\<close>

datatype 'a mark = Begin 'a | Done 'a

record 'a connection =
  hasQueue :: bool
  queue :: "'a list"
  processing :: bool
  drains :: "'a list"
  arrived :: "'a list"
  log :: "'a mark list"

definition handleConnection :: "'a connection" where
  "handleConnection =
     \<lparr>hasQueue = True, queue = [], processing = False, drains = [], arrived = [], log = []\<rparr>"

text \<open>\<^verbatim>\<open>processMessageQueue\<close> from its entry to its first \<^verbatim>\<open>await\<close> or its return.\<close>

definition processMessageQueue :: "'a connection \<Rightarrow> 'a connection" where
  "processMessageQueue c =
     (if \<not> hasQueue c then c
      else if processing c then c
      else (case queue c of
              [] \<Rightarrow> c\<lparr>processing := False\<rparr>
            | data # rest \<Rightarrow>
                c\<lparr>processing := True, queue := rest, drains := drains c @ [data],
                  log := log c @ [Begin data]\<rparr>))"

definition enqueueMessage :: "'a \<Rightarrow> 'a connection \<Rightarrow> 'a connection" where
  "enqueueMessage data c =
     (if \<not> hasQueue c then c
      else processMessageQueue (c\<lparr>queue := queue c @ [data], arrived := arrived c @ [data]\<rparr>))"

text \<open>The \<open>i\<close>-th suspended invocation resumes after its \<^verbatim>\<open>handleMessage\<close> has settled: it
  tests the loop condition again, and either takes the next payload or leaves through
  \<^verbatim>\<open>finally\<close>. It works on the object it fetched at its entry, whether or not the
  connection is still a key of the map.\<close>

definition resume :: "nat \<Rightarrow> 'a connection \<Rightarrow> 'a connection" where
  "resume i c =
     (if i \<ge> length (drains c) then c
      else (let c1 = c\<lparr>log := log c @ [Done (drains c ! i)]\<rparr>
            in case queue c1 of
                 [] \<Rightarrow> c1\<lparr>processing := False, drains := take i (drains c1) @ drop (Suc i) (drains c1)\<rparr>
               | data # rest \<Rightarrow>
                   c1\<lparr>queue := rest, drains := (drains c1)[i := data],
                      log := log c1 @ [Begin data]\<rparr>))"

definition cleanupConnection :: "'a connection \<Rightarrow> 'a connection" where
  "cleanupConnection c = c\<lparr>hasQueue := False\<rparr>"

datatype 'a queue_event = OnMessage 'a | Settled nat | OnClose

fun queue_step :: "'a queue_event \<Rightarrow> 'a connection \<Rightarrow> 'a connection" where
  "queue_step (OnMessage data) c = enqueueMessage data c"
| "queue_step (Settled i) c = resume i c"
| "queue_step OnClose c = cleanupConnection c"

definition queue_run :: "'a queue_event list \<Rightarrow> 'a connection" where
  "queue_run evs = fold queue_step evs handleConnection"

text \<open>The log of a connection that handles its payloads one at a time: each payload
  begins and is done before the next begins.\<close>

fun sequential :: "'a list \<Rightarrow> 'a list \<Rightarrow> 'a mark list" where
  "sequential [] current = map Begin current"
| "sequential (x # xs) current = Begin x # Done x # sequential xs current"

section \<open>Notions of the statements\<close>

text \<open>A parsed object that lacks a field its declared type requires: the type itself,
  the \<open>userId\<close> of a LOGIN, the \<open>content\<close> of a TEXT, IMAGE, VIDEO or AUDIO message.\<close>

definition missingRequiredField :: "jsval \<Rightarrow> bool" where
  "missingRequiredField m =
     (getProp m ''type'' = JUndefined
      \<or> (getProp m ''type'' = JStr ''LOGIN'' \<and> getProp m ''userId'' = JUndefined)
      \<or> (getProp m ''type'' \<in> set [JStr ''TEXT'', JStr ''IMAGE'', JStr ''VIDEO'', JStr ''AUDIO'']
           \<and> getProp m ''content'' = JUndefined))"

text \<open>The registry as a map from user ids: no user id is bound twice, and every entry
  holds the session of its own key.\<close>

definition registryOk :: "sessionMap \<Rightarrow> bool" where
  "registryOk ss = (distinct (map fst ss) \<and> (\<forall>p\<in>set ss. userId (snd p) = fst p))"

text \<open>The payloads whose handling is complete, in the order of completion, and the state
  of a connection that handles its payloads first in, first out, with at most one
  invocation of \<^verbatim>\<open>processMessageQueue\<close> past the test of \<open>processing\<close>.\<close>

fun finished :: "'a mark list \<Rightarrow> 'a list" where
  "finished [] = []"
| "finished (Begin x # l) = finished l"
| "finished (Done x # l) = x # finished l"

definition queueOk :: "'a connection \<Rightarrow> bool" where
  "queueOk c =
     (length (drains c) \<le> 1
      \<and> processing c = (drains c \<noteq> [])
      \<and> (\<not> processing c \<longrightarrow> queue c = [])
      \<and> arrived c = finished (log c) @ drains c @ queue c
      \<and> log c = sequential (finished (log c)) (drains c))"



text \<open>The connections on which a session is registered and which are open: those a
  broadcast without exclusion sends to.\<close>

definition openConnections :: "server \<Rightarrow> ws list" where
  "openConnections s =
     filter (\<lambda>c. readyState s c = 1) (map ws (getAllSessions (sessions s)))"

section \<open>Concrete states\<close>

text \<open>An environment in which nothing fails, a store as \<^verbatim>\<open>new StorageService(path)\<close>
  leaves it, and a few messages, for the evaluations below.\<close>

definition quietEnv :: env where
  "quietEnv =
     \<lparr>now = 1000, freshId = ''u-1000'', mkdirFails = False, readFails = False,
      writeFails = False, db = (\<lambda>q. \<lparr>sb_error = None, sb_data = None\<rparr>),
      toISOString = (\<lambda>v. Some ''1970-01-01T00:00:01.000Z'')\<rparr>"


definition newStorageService :: "jsval option \<Rightarrow> StorageService" where
  "newStorageService onDisk = \<lparr>messages = JArr [], initialized = False, fileContent = onDisk\<rparr>"

definition textOf :: "string \<Rightarrow> string \<Rightarrow> string \<Rightarrow> jsval" where
  "textOf i u c =
     JObj [(''type'', JStr ''TEXT''), (''id'', JStr i), (''senderId'', JStr u),
           (''content'', JStr c), (''timestamp'', JNum 1)]"

text \<open>Three users A, B and C on the connections 1, 2 and 3, the third of which is no
  longer open, over a file-backed store.\<close>

definition sessionOf :: "string \<Rightarrow> ws \<Rightarrow> string \<times> session" where
  "sessionOf u w = (u, \<lparr>userId = u, ws = w, connectedAt = 0, lastActivity = 0\<rparr>)"

definition fileServer :: "sessionMap \<Rightarrow> jsval list \<Rightarrow> server" where
  "fileServer ss ms =
     \<lparr>sessions = ss,
      storageService =
        Some (FileStorage \<lparr>messages = JArr ms, initialized = True, fileContent = Some (JArr ms)\<rparr>),
      readyState = (\<lambda>c. if c = 3 then 3 else 1)\<rparr>"

definition threeUsers :: server where
  "threeUsers = fileServer [sessionOf ''A'' 1, sessionOf ''B'' 2, sessionOf ''C'' 3] []"

definition clientMessage :: "string \<Rightarrow> string \<Rightarrow> payload" where
  "clientMessage t c = Parsed (JObj [(''type'', JStr t), (''content'', JStr c)])"



definition loginOf :: "string \<Rightarrow> payload" where
  "loginOf u = Parsed (JObj [(''type'', JStr ''LOGIN''), (''userId'', JStr u)])"

definition historyRequest :: "string \<Rightarrow> int \<Rightarrow> payload" where
  "historyRequest lastMessageId limit =
     Parsed (JObj [(''type'', JStr ''GET_HISTORY''), (''lastMessageId'', JStr lastMessageId),
                   (''limit'', JNum limit)])"

definition joined :: "string \<Rightarrow> jsval" where
  "joined u = systemMessage quietEnv (u @ '' joined the chat'')"


definition noUsers :: server where
  "noUsers = fileServer [] []"





section \<open>Strings and arrays\<close>

lemma trim_empty: "trim [] = []"
  by (simp add: trim_def)

lemma trim_nonempty: "trim u \<noteq> [] \<Longrightarrow> u \<noteq> []"
  using trim_empty by auto

lemma findIndex_bounds: "findIndex P xs = Inr r \<Longrightarrow> - 1 \<le> r \<and> r < int (length xs)"
  by (induction xs arbitrary: r) (auto split: sum.splits bool.splits if_splits)

lemma findIndex_none: "\<forall>x\<in>set xs. P x = Inr False \<Longrightarrow> findIndex P xs = Inr (- 1)"
  by (induction xs) auto

lemma findIndex_first:
  "k < length xs \<Longrightarrow> P (xs ! k) = Inr True \<Longrightarrow> (\<forall>j<k. P (xs ! j) = Inr False)
   \<Longrightarrow> findIndex P xs = Inr (int k)"
proof (induction xs arbitrary: k)
  case Nil
  then show ?case by simp
next
  case (Cons x xs)
  show ?case
  proof (cases k)
    case 0
    with Cons.prems show ?thesis by simp
  next
    case (Suc k')
    have nx: "P x = Inr False" using Cons.prems(3) Suc by auto
    have "\<forall>j<k'. P (xs ! j) = Inr False" using Cons.prems(3) Suc by auto
    moreover have "k' < length xs" "P (xs ! k') = Inr True" using Cons.prems Suc by auto
    ultimately have "findIndex P xs = Inr (int k')" using Cons.IH by blast
    with nx Suc show ?thesis by simp
  qed
qed

lemma slice_last: "0 < limit \<Longrightarrow> slice xs (- limit) None = drop (length xs - nat limit) xs"
  by (auto simp: slice_def Let_def max_def nat_diff_distrib' intro!: arg_cong2[where f=drop])

lemma slice_before:
  "slice xs (max 0 (int k - limit)) (Some (int k)) = drop (k - nat limit) (take k xs)"
  if "k \<le> length xs" "0 \<le> limit"
proof -
  have s: "nat (max 0 (int k - limit)) = k - nat limit" using that by (auto simp: max_def)
  have f: "nat (int k - max 0 (int k - limit)) = k - (k - nat limit)" using that by (auto simp: max_def)
  show ?thesis using that
    by (simp add: slice_def Let_def drop_take s f min_def) 
qed

section \<open>The file-backed store\<close>

lemma saveAll_messages:
  "initialized st \<Longrightarrow> messages st = JArr items \<Longrightarrow>
   messages (saveAll ems st) = JArr (items @ map snd ems) \<and> initialized (saveAll ems st)"
  by (induction ems arbitrary: st items) (auto simp: saveMessage_def Let_def)

lemma getMessagesBefore_found:
  assumes "initialized st" and "messages st = JArr items"
    and "findIndex (idIs messageId) items = Inr (int k)" and "0 \<le> limit"
  shows "getMessagesBefore e messageId limit st = (drop (k - nat limit) (take k items), st)"
proof -
  have "k \<le> length items" using findIndex_bounds [OF assms(3)] by simp
  then show ?thesis
    using assms by (simp add: getMessagesBefore_def Let_def slice_before)
qed

lemma getMessagesBefore_absent:
  assumes "initialized st" and "messages st = JArr items"
    and "findIndex (idIs messageId) items = Inr (- 1)" and "0 < limit"
  shows "getMessagesBefore e messageId limit st = (drop (length items - nat limit) items, st)"
  using assms by (simp add: getMessagesBefore_def Let_def slice_last)

text \<open>For a positive limit the window of \<open>getMessagesBefore\<close> is the one its comments
  describe: before the first message that carries the id the \<open>limit\<close> messages nearest
  to it, oldest first; when no saved message carries the id, the last \<open>limit\<close> saved
  messages.\<close>

lemma getMessagesBefore_window:
  assumes "initialized st0" and "messages st0 = JArr []" and "0 < limit"
  shows "(k < length ems \<and> idIs messageId (snd (ems ! k)) = Inr True
            \<and> (\<forall>j<k. idIs messageId (snd (ems ! j)) = Inr False)
          \<longrightarrow> fst (getMessagesBefore e messageId limit (saveAll ems st0))
                = drop (k - nat limit) (take k (map snd ems)))
       \<and> ((\<forall>j<length ems. idIs messageId (snd (ems ! j)) = Inr False)
          \<longrightarrow> fst (getMessagesBefore e messageId limit (saveAll ems st0))
                = drop (length ems - nat limit) (map snd ems))"
proof -
  let ?st = "saveAll ems st0"
  have st: "initialized ?st" "messages ?st = JArr (map snd ems)"
    using saveAll_messages [OF assms(1,2), of ems] by simp_all
  show ?thesis
  proof (intro conjI impI)
    assume h: "k < length ems \<and> idIs messageId (snd (ems ! k)) = Inr True
            \<and> (\<forall>j<k. idIs messageId (snd (ems ! j)) = Inr False)"
    have "findIndex (idIs messageId) (map snd ems) = Inr (int k)"
      using h by (intro findIndex_first) auto
    then show "fst (getMessagesBefore e messageId limit ?st)
                = drop (k - nat limit) (take k (map snd ems))"
      using getMessagesBefore_found [OF st, of messageId k limit e] assms(3) by simp
  next
    assume h: "\<forall>j<length ems. idIs messageId (snd (ems ! j)) = Inr False"
    have "\<forall>x\<in>set (map snd ems). idIs messageId x = Inr False"
    proof
      fix x assume "x \<in> set (map snd ems)"
      then obtain i where "i < length ems" "x = snd (ems ! i)"
        by (auto simp: in_set_conv_nth)
      then show "idIs messageId x = Inr False" using h by simp
    qed
    then have "findIndex (idIs messageId) (map snd ems) = Inr (- 1)"
      by (rule findIndex_none)
    then show "fst (getMessagesBefore e messageId limit ?st)
                = drop (length ems - nat limit) (map snd ems)"
      using getMessagesBefore_absent [OF st, of messageId limit e] assms(3) by simp
  qed
qed

text \<open>
  C2. For a positive limit the store returns the window the claim describes
  (\<open>getMessagesBefore_window\<close>: before the first index that carries the id, or at the
  end when no saved message carries it). It does not for the limit 0, which a client
  can send: \<open>validateMessage\<close> accepts
  \<^verbatim>\<open>{type: "GET_HISTORY", limit: 0}\<close> and \<open>handleGetHistory\<close> passes the 0 on. With no id
  the store answers by \<^verbatim>\<open>this.messages.slice(-limit)\<close>, and \<^verbatim>\<open>slice(-0)\<close> is \<^verbatim>\<open>slice(0)\<close>: every
  saved message is returned, where the comment on that line and the claim say the most
  recent \<open>limit\<close> messages, which are none. The branch for an id that is found returns
  none for the same limit.
\<close>

theorem getMessagesBefore_limit_zero:
  "fst (getMessagesBefore quietEnv JUndefined 0
          (saveAll [(quietEnv, textOf ''a'' ''A'' ''one''), (quietEnv, textOf ''b'' ''A'' ''two'')]
             (newStorageService None)))
     = [textOf ''a'' ''A'' ''one'', textOf ''b'' ''A'' ''two'']
   \<and> fst (getMessagesBefore quietEnv (JStr ''b'') 0
          (saveAll [(quietEnv, textOf ''a'' ''A'' ''one''), (quietEnv, textOf ''b'' ''A'' ''two'')]
             (newStorageService None)))
     = []
   \<and> snd (handleMessage quietEnv 1
            (Parsed (JObj [(''type'', JStr ''GET_HISTORY''), (''limit'', JNum 0)]))
            (fileServer [sessionOf ''A'' 1]
               [textOf ''a'' ''A'' ''one'', textOf ''b'' ''A'' ''two'']))
     = [(1, HistoryResponse [textOf ''a'' ''A'' ''one'', textOf ''b'' ''A'' ''two''] False)]"
  by (simp add: getMessagesBefore_def saveMessage_def initialize_def newStorageService_def
      quietEnv_def textOf_def slice_def idIs_def Let_def handleMessage_def settle_def
      handleMessage_begin_def validateMessage_def handleGetHistory_def boundUserId_def
      limitOf_def fileServer_def sessionOf_def)




section \<open>Validation and dispatch\<close>

lemma getProp_object: "getProp m k \<noteq> JUndefined \<Longrightarrow> truthy m \<and> typeof m = ''object''"
  by (cases m) auto

lemma validateMessage_type:
  "validateMessage m = None \<Longrightarrow> \<exists>t. getProp m ''type'' = JStr t \<and> t \<noteq> []"
  by (auto simp: validateMessage_def split: if_splits jsval.splits)


lemma settle_None [simp]: "settle e (s, out, None) = (s, out, None)"
  by (simp add: settle_def)

lemma handleMessage_done:
  "handleMessage_begin e w p s = (s', out, None) \<Longrightarrow> handleMessage e w p s = (s', out)"
  by (simp add: handleMessage_def)



lemma broadcast_eq:
  "broadcast m x s =
     map (\<lambda>c. (c, MessageFrame m))
       (filter (\<lambda>c. Some c \<noteq> x \<and> readyState s c = 1) (map (\<lambda>p. ws (snd p)) (sessions s)))"
  by (simp add: broadcast_def getAllSessions_def filter_map comp_def)

lemma broadcast_member:
  "((c, f) \<in> set (broadcast m x s)) =
     (f = MessageFrame m \<and> c \<in> set (openConnections s) \<and> Some c \<noteq> x)"
  by (auto simp: broadcast_eq openConnections_def getAllSessions_def)

lemma saveThenBroadcast_simps [simp]:
  "sessions (fst (saveThenBroadcast e m x s)) = sessions s"
  "readyState (fst (saveThenBroadcast e m x s)) = readyState s"
  by (simp_all add: saveThenBroadcast_def split: option.splits)







section \<open>Broadcast\<close>




section \<open>Malformed input, history requests, unauthenticated connections\<close>

lemma handleMessage_invalid:
  "validateMessage m = Some err \<Longrightarrow> handleMessage e w (Parsed m) s = (s, sendErrorResponse e w err s)"
  by (simp add: handleMessage_def handleMessage_begin_def)

lemma missingRequiredField_invalid:
  "missingRequiredField m \<Longrightarrow> \<exists>err. validateMessage m = Some err"
  by (auto simp: missingRequiredField_def validateMessage_def)

text \<open>
  C5, as amended. For a payload that does not parse, and for a parsed object that lacks a
  required field of its declared type, the dispatch returns, the registry and the store
  are as before, exactly one ERROR frame is sent to the connection if the connection is
  open and none otherwise, and any later input is handled as if the malformed one had
  never arrived.
\<close>

theorem malformed_input:
  assumes "p = Unparseable \<or> (\<exists>fields. p = Parsed (JObj fields) \<and> missingRequiredField (JObj fields))"
  shows "fst (handleMessage e w p s) = s
       \<and> (readyState s w = 1 \<longrightarrow>
            (\<exists>text. snd (handleMessage e w p s) = [(w, ErrorFrame text (Some (now e)))]))
       \<and> (readyState s w \<noteq> 1 \<longrightarrow> snd (handleMessage e w p s) = [])
       \<and> handleMessage e' w' p' (fst (handleMessage e w p s)) = handleMessage e' w' p' s"
proof -
  have "\<exists>err. handleMessage e w p s = (s, sendErrorResponse e w err s)"
  proof (cases p)
    case Unparseable
    then have "handleMessage e w p s = (s, sendErrorResponse e w ''Invalid JSON format'' s)"
      by (simp add: handleMessage_def handleMessage_begin_def)
    then show ?thesis by blast
  next
    case (Parsed m)
    then have "missingRequiredField m" using assms by auto
    then obtain err where "validateMessage m = Some err"
      using missingRequiredField_invalid by blast
    then show ?thesis using Parsed handleMessage_invalid by blast
  qed
  then obtain err where "handleMessage e w p s = (s, sendErrorResponse e w err s)" ..
  then show ?thesis by (simp add: sendErrorResponse_def)
qed

theorem malformed_input_witness:
  "handleMessage quietEnv 1 Unparseable threeUsers
     = (threeUsers, [(1, ErrorFrame ''Invalid JSON format'' (Some 1000))])
   \<and> handleMessage quietEnv 1 (Parsed (JObj [(''type'', JStr ''TEXT'')])) threeUsers
     = (threeUsers, [(1, ErrorFrame ''TEXT message must have a valid content field'' (Some 1000))])"
proof -
  have o: "readyState threeUsers 1 = 1" by (simp add: threeUsers_def fileServer_def)
  have m: "missingRequiredField (JObj [(''type'', JStr ''TEXT'')])"
    by (simp add: missingRequiredField_def)
  have a: "snd (handleMessage quietEnv 1 Unparseable threeUsers)
            = [(1, ErrorFrame ''Invalid JSON format'' (Some 1000))]"
    using o by (simp add: handleMessage_def handleMessage_begin_def sendErrorResponse_def
        quietEnv_def)
  have b: "snd (handleMessage quietEnv 1 (Parsed (JObj [(''type'', JStr ''TEXT'')])) threeUsers)
            = [(1, ErrorFrame ''TEXT message must have a valid content field'' (Some 1000))]"
    using o by (simp add: handleMessage_def handleMessage_begin_def validateMessage_def
        sendErrorResponse_def quietEnv_def)
  show ?thesis
    using malformed_input [of Unparseable quietEnv 1 threeUsers]
      malformed_input [of "Parsed (JObj [(''type'', JStr ''TEXT'')])" quietEnv 1 threeUsers] m a b
    by (simp add: prod_eq_iff)
qed

text \<open>The claim as stated promises exactly one ERROR frame. \<open>sendErrorResponse\<close> sends
  only when the connection is open; connection 3 is not, and gets none.\<close>

theorem malformed_input_closed_counterexample:
  "readyState threeUsers 3 = 3 \<and> snd (handleMessage quietEnv 3 Unparseable threeUsers) = []"
  by (simp add: handleMessage_def handleMessage_begin_def sendErrorResponse_def threeUsers_def
      fileServer_def)

lemma begin_getHistory:
  assumes "validateMessage m = None" and "getProp m ''type'' = JStr ''GET_HISTORY''"
  shows "handleMessage_begin e w (Parsed m) s = handleGetHistory e w m s"
  using assms by (simp add: handleMessage_begin_def)

lemma handleGetHistory_ok:
  assumes "boundUserId w s = Some u" and "storageService s = Some st"
    and "storage_getMessagesBefore e (getProp m ''lastMessageId'') (limitOf m) st = (r, st')"
  shows "handleGetHistory e w m s =
           (s\<lparr>storageService := Some st'\<rparr>, [], Some (AwaitHistory w (limitOf m) r))"
  using assms by (simp add: handleGetHistory_def)

lemma validateMessage_limit:
  assumes "validateMessage m = None" and "getProp m ''type'' = JStr ''GET_HISTORY''"
  shows "getProp m ''limit'' = JUndefined \<or> (\<exists>n. getProp m ''limit'' = JNum n)"
  using assms by (cases "getProp m ''limit''") (auto simp: validateMessage_def split: if_splits)

text \<open>
  C3, as amended. For a valid GET_HISTORY from a bound connection the dispatcher asks the
  store for \<open>getMessagesBefore(lastMessageId, limit)\<close>, where \<open>limit\<close> is 20 when the field
  is omitted and the given number otherwise (0 included); when the store returns a
  batch, the answer is a HISTORY_RESPONSE with that batch whose \<open>hasMore\<close> is true exactly
  when the size of the batch equals that limit.
\<close>

theorem getHistory_response:
  assumes "boundUserId w s = Some u" and "storageService s = Some st"
    and "validateMessage m = None" and "getProp m ''type'' = JStr ''GET_HISTORY''"
    and "limit = (case getProp m ''limit'' of JNum n \<Rightarrow> n | _ \<Rightarrow> 20)"
    and "storage_getMessagesBefore e (getProp m ''lastMessageId'') limit st = (Inr msgs, st')"
  shows "(getProp m ''limit'' = JUndefined \<and> limit = 20 \<or> getProp m ''limit'' = JNum limit)
       \<and> handleMessage e w (Parsed m) s =
           (s\<lparr>storageService := Some st'\<rparr>, [(w, HistoryResponse msgs (int (length msgs) = limit))])"
proof -
  have "getProp m ''limit'' = JUndefined \<and> limit = 20 \<or> getProp m ''limit'' = JNum limit"
    using validateMessage_limit [OF assms(3,4)] assms(5) by auto
  moreover have l: "limitOf m = limit" using assms(5) by (simp add: limitOf_def)
  moreover have "handleMessage_begin e w (Parsed m) s =
      (s\<lparr>storageService := Some st'\<rparr>, [], Some (AwaitHistory w limit (Inr msgs)))"
    using handleGetHistory_ok [OF assms(1,2), of e m "Inr msgs" st'] assms(6)
      begin_getHistory [OF assms(3,4), of e w s]
    unfolding l by simp
  ultimately show ?thesis
    by (simp add: handleMessage_def settle_def)
qed

theorem getHistory_response_witness:
  "handleMessage quietEnv 1 (historyRequest ''c'' 2)
     (fileServer [sessionOf ''A'' 1]
        [textOf ''a'' ''A'' ''one'', textOf ''b'' ''A'' ''two'', textOf ''c'' ''B'' ''three''])
   = (fileServer [sessionOf ''A'' 1]
        [textOf ''a'' ''A'' ''one'', textOf ''b'' ''A'' ''two'', textOf ''c'' ''B'' ''three''],
      [(1, HistoryResponse [textOf ''a'' ''A'' ''one'', textOf ''b'' ''A'' ''two''] True)])"
proof -
  let ?ms = "[textOf ''a'' ''A'' ''one'', textOf ''b'' ''A'' ''two'', textOf ''c'' ''B'' ''three'']"
  let ?st = "FileStorage \<lparr>messages = JArr ?ms, initialized = True, fileContent = Some (JArr ?ms)\<rparr>"
  let ?s = "fileServer [sessionOf ''A'' 1] ?ms"
  let ?m = "JObj [(''type'', JStr ''GET_HISTORY''), (''lastMessageId'', JStr ''c''), (''limit'', JNum 2)]"
  have b: "boundUserId 1 ?s = Some ''A''"
    by (simp add: boundUserId_def fileServer_def sessionOf_def)
  have st: "storageService ?s = Some ?st" by (simp add: fileServer_def)
  have v: "validateMessage ?m = None" by (simp add: validateMessage_def)
  have t: "getProp ?m ''type'' = JStr ''GET_HISTORY''" by simp
  have l: "(2::int) = (case getProp ?m ''limit'' of JNum n \<Rightarrow> n | _ \<Rightarrow> 20)" by simp
  have q: "storage_getMessagesBefore quietEnv (getProp ?m ''lastMessageId'') 2 ?st
             = (Inr [textOf ''a'' ''A'' ''one'', textOf ''b'' ''A'' ''two''], ?st)"
    by (simp add: getMessagesBefore_def slice_def idIs_def textOf_def Let_def)
  have s: "?s\<lparr>storageService := Some ?st\<rparr> = ?s" by (simp add: fileServer_def)
  show ?thesis
    using getHistory_response [OF b st v t l q] s by (simp add: historyRequest_def)
qed

text \<open>The claim as stated replaces a limit of 0 by 20. The code passes the 0 on: the
  answer to \<^verbatim>\<open>{lastMessageId: "b", limit: 0}\<close> is an empty batch with \<open>hasMore\<close> true, where
  the query with 20 gives the one message before \<open>b\<close> (and \<open>hasMore\<close> false).\<close>

theorem getHistory_limit_zero_counterexample:
  "snd (handleMessage quietEnv 1 (historyRequest ''b'' 0)
          (fileServer [sessionOf ''A'' 1] [textOf ''a'' ''A'' ''one'', textOf ''b'' ''A'' ''two'']))
     = [(1, HistoryResponse [] True)]
   \<and> fst (getMessagesBefore quietEnv (JStr ''b'') 20
            \<lparr>messages = JArr [textOf ''a'' ''A'' ''one'', textOf ''b'' ''A'' ''two''],
             initialized = True,
             fileContent = Some (JArr [textOf ''a'' ''A'' ''one'', textOf ''b'' ''A'' ''two''])\<rparr>)
     = [textOf ''a'' ''A'' ''one'']"
  by (simp add: handleMessage_def settle_def handleMessage_begin_def validateMessage_def
      handleGetHistory_def boundUserId_def limitOf_def historyRequest_def fileServer_def
      sessionOf_def getMessagesBefore_def slice_def idIs_def textOf_def Let_def)

lemma unauthenticated: "findUserIdByWs w (sessions s) = None \<Longrightarrow> boundUserId w s = None"
  by (simp add: boundUserId_def)

text \<open>
  C4, as amended. On a connection for which the reverse lookup yields nothing, every
  parsed message whose type is not LOGIN leaves the registry and the store as they are
  and sends nothing but at most one ERROR frame to that connection; when the message
  passes validation and its type is TEXT, IMAGE, VIDEO, AUDIO or GET_HISTORY, that frame
  is the error "Not authenticated".
\<close>

theorem unauthenticated_rejected:
  assumes "findUserIdByWs w (sessions s) = None" and "getProp m ''type'' \<noteq> JStr ''LOGIN''"
  shows "fst (handleMessage e w (Parsed m) s) = s
       \<and> (\<exists>text stamp. snd (handleMessage e w (Parsed m) s) = [(w, ErrorFrame text stamp)]
            \<or> (readyState s w \<noteq> 1 \<and> snd (handleMessage e w (Parsed m) s) = []))
       \<and> (validateMessage m = None
            \<and> getProp m ''type'' \<in> set [JStr ''TEXT'', JStr ''IMAGE'', JStr ''VIDEO'', JStr ''AUDIO'',
                                           JStr ''GET_HISTORY'']
          \<longrightarrow> snd (handleMessage e w (Parsed m) s) = [(w, ErrorFrame ''Not authenticated'' None)])"
proof (cases "validateMessage m")
  case (Some err)
  then show ?thesis
    by (simp add: handleMessage_invalid sendErrorResponse_def)
next
  case None
  then obtain t where t: "getProp m ''type'' = JStr t" using validateMessage_type by blast
  have b: "boundUserId w s = None" using assms(1) by (rule unauthenticated)
  show ?thesis
    using None t b assms(2)
    by (simp add: handleMessage_def handleMessage_begin_def handleTextMessage_def
        handleMediaMessage_def handleGetHistory_def sendErrorResponse_def)
qed

theorem unauthenticated_rejected_witness:
  "findUserIdByWs 4 (sessions threeUsers) = None
   \<and> handleMessage quietEnv 4 (clientMessage ''TEXT'' ''hi'') threeUsers
       = (threeUsers, [(4, ErrorFrame ''Not authenticated'' None)])"
proof -
  let ?m = "JObj [(''type'', JStr ''TEXT''), (''content'', JStr ''hi'')]"
  have f: "findUserIdByWs 4 (sessions threeUsers) = None"
    by (simp add: threeUsers_def fileServer_def sessionOf_def)
  have n: "getProp ?m ''type'' \<noteq> JStr ''LOGIN''" by simp
  have v: "validateMessage ?m = None" by (simp add: validateMessage_def)
  show ?thesis
    using unauthenticated_rejected [OF f n, of quietEnv] v f
    by (simp add: clientMessage_def prod_eq_iff)
qed

text \<open>The claim as stated promises the error "Not authenticated" for every message that
  is not a LOGIN. Validation and the \<^verbatim>\<open>switch\<close> come first: an unknown type from an
  unbound connection is answered by another error.\<close>

theorem unauthenticated_unknown_type_counterexample:
  "findUserIdByWs 4 (sessions threeUsers) = None
   \<and> snd (handleMessage quietEnv 4 (Parsed (JObj [(''type'', JStr ''PING'')])) threeUsers)
       = [(4, ErrorFrame ''Unknown message type: PING'' (Some 1000))]"
  by (simp add: handleMessage_def handleMessage_begin_def validateMessage_def
      sendErrorResponse_def threeUsers_def fileServer_def sessionOf_def quietEnv_def)

section \<open>Login\<close>

lemma begin_login:
  assumes "getProp m ''type'' = JStr ''LOGIN''" and "getProp m ''userId'' = JStr u" and "u \<noteq> []"
  shows "handleMessage_begin e w (Parsed m) s =
           (case handleLogin e w m s of
              Inl err \<Rightarrow> (s, sendErrorResponse e w ''Failed to process message'' s, None)
            | Inr r \<Rightarrow> r)"
proof -
  have "validateMessage m = None"
    using assms getProp_object [of m "''type''"] by (simp add: validateMessage_def)
  then show ?thesis using assms(1) by (simp add: handleMessage_begin_def)
qed

lemma begin_login_empty:
  assumes "getProp m ''type'' = JStr ''LOGIN''" and "getProp m ''userId'' = JStr []"
  shows "handleMessage_begin e w (Parsed m) s =
           (s, sendErrorResponse e w ''LOGIN message must have a valid userId field'' s, None)"
proof -
  have "validateMessage m = Some ''LOGIN message must have a valid userId field''"
    using assms getProp_object [of m "''type''"] by (simp add: validateMessage_def)
  then show ?thesis by (simp add: handleMessage_begin_def)
qed

lemma handleLogin_blank:
  assumes "getProp m ''userId'' = JStr u" and "u \<noteq> []" and "trim u = []"
  shows "handleLogin e w m s = Inr (s, [(w, ErrorFrame ''Invalid user ID'' None)], None)"
  using assms by (simp add: handleLogin_def)

lemma handleLogin_store:
  assumes "getProp m ''userId'' = JStr u" and "trim u \<noteq> []" and "storageService s = Some st"
  shows "handleLogin e w m s =
     Inr (s\<lparr>sessions := createSession u w (now e) (sessions s),
            storageService := Some (snd (storage_getMessagesBefore e JNull 50 st))\<rparr>,
          [(w, LoginSuccess u)],
          Some (AwaitInitialHistory w u (fst (storage_getMessagesBefore e JNull 50 st))))"
  using assms trim_nonempty [OF assms(2)]
  by (simp add: handleLogin_def Let_def case_prod_beta)

lemma handleLogin_no_store:
  assumes "getProp m ''userId'' = JStr u" and "trim u \<noteq> []" and "storageService s = None"
  shows "handleLogin e w m s =
     Inr (s\<lparr>sessions := createSession u w (now e) (sessions s)\<rparr>,
          [(w, LoginSuccess u)]
          @ broadcast (systemMessage e (u @ '' joined the chat'')) (Some w)
              (s\<lparr>sessions := createSession u w (now e) (sessions s)\<rparr>),
          None)"
  using assms trim_nonempty [OF assms(2)]
  by (simp add: handleLogin_def Let_def)

lemma resume_initial_history:
  assumes "storageService s = Some st"
  shows "resumeHandler e (AwaitInitialHistory w u result) s =
     (s\<lparr>storageService :=
          Some (snd (storage_saveMessage e (systemMessage e (u @ '' joined the chat'')) st))\<rparr>,
      (case result of
         Inr msgs \<Rightarrow> if msgs = [] then [] else [(w, HistoryResponse msgs (length msgs = 50))]
       | Inl err \<Rightarrow> []),
      Some (AwaitSave (systemMessage e (u @ '' joined the chat'')) (Some w)))"
  using assms by (simp add: saveThenBroadcast_def split: sum.splits)

lemma broadcast_storage [simp]:
  "broadcast m x (s\<lparr>storageService := y\<rparr>) = broadcast m x s"
  by (simp add: broadcast_def)

text \<open>The frames of a login that nothing interrupts.\<close>

lemma handleMessage_login:
  assumes "getProp m ''type'' = JStr ''LOGIN''" and "getProp m ''userId'' = JStr u"
    and "trim u \<noteq> []"
  shows "\<exists>history. snd (handleMessage e w (Parsed m) s) =
            [(w, LoginSuccess u)] @ history
            @ broadcast (systemMessage e (u @ '' joined the chat'')) (Some w)
                (s\<lparr>sessions := createSession u w (now e) (sessions s)\<rparr>)
          \<and> (history = []
               \<or> (\<exists>msgs. msgs \<noteq> [] \<and> history = [(w, HistoryResponse msgs (length msgs = 50))]))
          \<and> sessions (fst (handleMessage e w (Parsed m) s)) = createSession u w (now e) (sessions s)
          \<and> readyState (fst (handleMessage e w (Parsed m) s)) = readyState s"
proof (cases "storageService s")
  case None
  show ?thesis
    using begin_login [OF assms(1,2) trim_nonempty [OF assms(3)], of e w s]
      handleLogin_no_store [OF assms(2,3) None, of e w]
    by (simp add: handleMessage_def)
next
  case (Some st)
  let ?q = "storage_getMessagesBefore e JNull 50 st"
  let ?s1 = "s\<lparr>sessions := createSession u w (now e) (sessions s), storageService := Some (snd ?q)\<rparr>"
  let ?notice = "systemMessage e (u @ '' joined the chat'')"
  let ?history = "case fst ?q of
         Inr msgs \<Rightarrow> if msgs = [] then [] else [(w, HistoryResponse msgs (length msgs = 50))]
       | Inl err \<Rightarrow> []"
  have b: "handleMessage_begin e w (Parsed m) s =
      (?s1, [(w, LoginSuccess u)], Some (AwaitInitialHistory w u (fst ?q)))"
    using begin_login [OF assms(1,2) trim_nonempty [OF assms(3)], of e w s]
      handleLogin_store [OF assms(2,3) Some, of e w]
    by simp
  have st1: "storageService ?s1 = Some (snd ?q)" by simp
  have r: "settle e (handleMessage_begin e w (Parsed m) s) =
      (?s1\<lparr>storageService := Some (snd (storage_saveMessage e ?notice (snd ?q)))\<rparr>,
       [(w, LoginSuccess u)] @ ?history, Some (AwaitSave ?notice (Some w)))"
    unfolding b by (simp add: settle_def resume_initial_history [OF st1] del: resumeHandler.simps)
  have out: "snd (handleMessage e w (Parsed m) s) =
      [(w, LoginSuccess u)] @ ?history
      @ broadcast ?notice (Some w) (s\<lparr>sessions := createSession u w (now e) (sessions s)\<rparr>)"
    unfolding handleMessage_def r by (simp add: settle_def broadcast_def)
  have fs: "sessions (fst (handleMessage e w (Parsed m) s)) = createSession u w (now e) (sessions s)"
       "readyState (fst (handleMessage e w (Parsed m) s)) = readyState s"
    unfolding handleMessage_def r by (simp_all add: settle_def)
  have "?history = []
      \<or> (\<exists>msgs. msgs \<noteq> [] \<and> ?history = [(w, HistoryResponse msgs (length msgs = 50))])"
    by (auto split: sum.splits)
  then show ?thesis using out fs by blast
qed

lemma storage_file_latest:
  assumes "initialized fs" and "messages fs = JArr items"
    and "findIndex (idIs JNull) items = Inr (- 1)"
  shows "storage_getMessagesBefore e JNull 50 (FileStorage fs)
           = (Inr (drop (length items - 50) items), FileStorage fs)"
  using getMessagesBefore_absent [OF assms, of 50 e] by simp

lemma storage_file_save:
  assumes "initialized fs" and "messages fs = JArr items"
  shows "snd (storage_saveMessage e m (FileStorage fs)) =
     FileStorage (fs\<lparr>messages := JArr (items @ [m]),
                     fileContent := (if writeFails e then fileContent fs
                                     else Some (JArr (items @ [m])))\<rparr>)"
  using assms by (simp add: saveMessage_def Let_def)

text \<open>
  C6, as amended. A LOGIN whose \<open>userId\<close> is empty or blank changes nothing and is
  answered by an ERROR frame (for the empty \<open>userId\<close> through \<open>sendErrorResponse\<close>, so
  only on an open connection). A LOGIN with a non-blank \<open>userId\<close> registers the session,
  sends LOGIN_SUCCESS and asks the store for the 50 latest messages (a file-backed store
  answers with its last 50). When the query has settled, it sends them to the connection
  as a HISTORY_RESPONSE if there is at least one, and nothing if there is none or the
  query has thrown; then it builds the joined notice and saves it (the file-backed store
  keeps it in memory also when the write fails). When the save has settled, the notice
  is sent to the open connections other than \<open>w\<close> on which a session is registered at
  that moment. Without a store the notice is broadcast at once. When nothing happens in
  between, the frames are LOGIN_SUCCESS, at most one HISTORY_RESPONSE, and the notices
  to the sessions registered at the login, in this order.
\<close>

theorem login_flow:
  assumes "getProp m ''type'' = JStr ''LOGIN''" and "getProp m ''userId'' = JStr u"
    and "registered = s\<lparr>sessions := createSession u w (now e) (sessions s)\<rparr>"
    and "notice = systemMessage e' (u @ '' joined the chat'')"
  shows "(trim u = [] \<longrightarrow>
            handleMessage_begin e w (Parsed m) s =
              (s, (if u = [] then sendErrorResponse e w ''LOGIN message must have a valid userId field'' s
                   else [(w, ErrorFrame ''Invalid user ID'' None)]), None))
       \<and> (trim u \<noteq> [] \<and> storageService s = Some st \<longrightarrow>
            handleMessage_begin e w (Parsed m) s =
              (registered\<lparr>storageService := Some (snd (storage_getMessagesBefore e JNull 50 st))\<rparr>,
               [(w, LoginSuccess u)],
               Some (AwaitInitialHistory w u (fst (storage_getMessagesBefore e JNull 50 st)))))
       \<and> (trim u \<noteq> [] \<and> storageService s = None \<longrightarrow>
            handleMessage_begin e w (Parsed m) s =
              (registered,
               [(w, LoginSuccess u)]
               @ broadcast (systemMessage e (u @ '' joined the chat'')) (Some w) registered,
               None))
       \<and> (storageService s' = Some st' \<longrightarrow>
            resumeHandler e' (AwaitInitialHistory w u result) s' =
              (s'\<lparr>storageService := Some (snd (storage_saveMessage e' notice st'))\<rparr>,
               (case result of
                  Inr msgs \<Rightarrow> if msgs = [] then [] else [(w, HistoryResponse msgs (length msgs = 50))]
                | Inl err \<Rightarrow> []),
               Some (AwaitSave notice (Some w))))
       \<and> resumeHandler e'' (AwaitSave notice (Some w)) s'' = (s'', broadcast notice (Some w) s'', None)
       \<and> ((c, f) \<in> set (broadcast notice (Some w) s'')) =
           (f = MessageFrame notice \<and> c \<in> set (openConnections s'') \<and> c \<noteq> w)
       \<and> (initialized fs \<and> messages fs = JArr items \<and> findIndex (idIs JNull) items = Inr (- 1) \<longrightarrow>
            storage_getMessagesBefore e JNull 50 (FileStorage fs)
              = (Inr (drop (length items - 50) items), FileStorage fs)
            \<and> snd (storage_saveMessage e' notice (FileStorage fs)) =
                FileStorage (fs\<lparr>messages := JArr (items @ [notice]),
                                fileContent := (if writeFails e' then fileContent fs
                                                else Some (JArr (items @ [notice])))\<rparr>))
       \<and> (trim u \<noteq> [] \<longrightarrow>
            (\<exists>history. snd (handleMessage e w (Parsed m) s) =
                 [(w, LoginSuccess u)] @ history
                 @ broadcast (systemMessage e (u @ '' joined the chat'')) (Some w) registered
               \<and> (history = []
                    \<or> (\<exists>msgs. msgs \<noteq> [] \<and> history = [(w, HistoryResponse msgs (length msgs = 50))]))))"
proof -
  have c1: "handleMessage_begin e w (Parsed m) s =
              (s, (if u = [] then sendErrorResponse e w ''LOGIN message must have a valid userId field'' s
                   else [(w, ErrorFrame ''Invalid user ID'' None)]), None)"
    if "trim u = []"
    using that begin_login_empty [OF assms(1), of e w s]
      begin_login [OF assms(1,2), of e w s] handleLogin_blank [OF assms(2) _ that, of e w s]
      assms(2)
    by (cases "u = []") simp_all
  have c2: "handleMessage_begin e w (Parsed m) s =
              (registered\<lparr>storageService := Some (snd (storage_getMessagesBefore e JNull 50 st))\<rparr>,
               [(w, LoginSuccess u)],
               Some (AwaitInitialHistory w u (fst (storage_getMessagesBefore e JNull 50 st))))"
    if "trim u \<noteq> []" "storageService s = Some st"
    using begin_login [OF assms(1,2) trim_nonempty [OF that(1)], of e w s]
      handleLogin_store [OF assms(2) that, of e w] assms(3)
    by simp
  have c3: "handleMessage_begin e w (Parsed m) s =
              (registered,
               [(w, LoginSuccess u)]
               @ broadcast (systemMessage e (u @ '' joined the chat'')) (Some w) registered,
               None)"
    if "trim u \<noteq> []" "storageService s = None"
    using begin_login [OF assms(1,2) trim_nonempty [OF that(1)], of e w s]
      handleLogin_no_store [OF assms(2) that, of e w] assms(3)
    by simp
  have c4: "resumeHandler e' (AwaitInitialHistory w u result) s' =
              (s'\<lparr>storageService := Some (snd (storage_saveMessage e' notice st'))\<rparr>,
               (case result of
                  Inr msgs \<Rightarrow> if msgs = [] then [] else [(w, HistoryResponse msgs (length msgs = 50))]
                | Inl err \<Rightarrow> []),
               Some (AwaitSave notice (Some w)))"
    if "storageService s' = Some st'"
    using resume_initial_history [OF that, of e' w u result] assms(4) by simp
  have c5: "resumeHandler e'' (AwaitSave notice (Some w)) s'' = (s'', broadcast notice (Some w) s'', None)"
    by simp
  have c6: "((c, f) \<in> set (broadcast notice (Some w) s'')) =
           (f = MessageFrame notice \<and> c \<in> set (openConnections s'') \<and> c \<noteq> w)"
    by (auto simp: broadcast_member)
  have c7: "storage_getMessagesBefore e JNull 50 (FileStorage fs)
              = (Inr (drop (length items - 50) items), FileStorage fs)
            \<and> snd (storage_saveMessage e' notice (FileStorage fs)) =
                FileStorage (fs\<lparr>messages := JArr (items @ [notice]),
                                fileContent := (if writeFails e' then fileContent fs
                                                else Some (JArr (items @ [notice])))\<rparr>)"
    if "initialized fs" "messages fs = JArr items" "findIndex (idIs JNull) items = Inr (- 1)"
    using storage_file_latest [OF that, of e] storage_file_save [OF that(1,2), of e' notice]
    by simp
  have c8: "\<exists>history. snd (handleMessage e w (Parsed m) s) =
                 [(w, LoginSuccess u)] @ history
                 @ broadcast (systemMessage e (u @ '' joined the chat'')) (Some w) registered
               \<and> (history = []
                    \<or> (\<exists>msgs. msgs \<noteq> [] \<and> history = [(w, HistoryResponse msgs (length msgs = 50))]))"
    if "trim u \<noteq> []"
    using handleMessage_login [OF assms(1,2) that, of e w s] unfolding assms(3) by blast
  show ?thesis
    using c1 c2 c3 c4 c5 c6 c7 c8 by blast
qed

theorem login_flow_witness:
  "snd (handleMessage_begin quietEnv 4 (loginOf ''D'')
          (fileServer [sessionOf ''A'' 1, sessionOf ''B'' 2, sessionOf ''C'' 3]
             [textOf ''a'' ''A'' ''one'']))
     = ([(4, LoginSuccess ''D'')],
        Some (AwaitInitialHistory 4 ''D'' (Inr [textOf ''a'' ''A'' ''one''])))
   \<and> snd (resumeHandler quietEnv (AwaitInitialHistory 4 ''D'' (Inr [textOf ''a'' ''A'' ''one'']))
          (fileServer [sessionOf ''A'' 1, sessionOf ''B'' 2, sessionOf ''C'' 3]
             [textOf ''a'' ''A'' ''one'']))
     = ([(4, HistoryResponse [textOf ''a'' ''A'' ''one''] False)],
        Some (AwaitSave (joined ''D'') (Some 4)))
   \<and> resumeHandler quietEnv (AwaitSave (joined ''D'') (Some 4)) threeUsers
     = (threeUsers, [(1, MessageFrame (joined ''D'')), (2, MessageFrame (joined ''D''))], None)
   \<and> handleMessage_begin quietEnv 4 (loginOf [CHR 0xE3, CHR 0x80, CHR 0x80]) threeUsers
     = (threeUsers, [(4, ErrorFrame ''Invalid user ID'' None)], None)"
proof -
  let ?a = "textOf ''a'' ''A'' ''one''"
  let ?s = "fileServer [sessionOf ''A'' 1, sessionOf ''B'' 2, sessionOf ''C'' 3] [?a]"
  let ?fs = "\<lparr>messages = JArr [?a], initialized = True, fileContent = Some (JArr [?a])\<rparr>"
  let ?m = "JObj [(''type'', JStr ''LOGIN''), (''userId'', JStr ''D'')]"
  let ?blank = "[CHR 0xE3, CHR 0x80, CHR 0x80]"
  let ?b = "JObj [(''type'', JStr ''LOGIN''), (''userId'', JStr ?blank)]"
  have t: "getProp ?m ''type'' = JStr ''LOGIN''" and u: "getProp ?m ''userId'' = JStr ''D''"
    by simp_all
  have tb: "getProp ?b ''type'' = JStr ''LOGIN''" and ub: "getProp ?b ''userId'' = JStr ?blank"
    by simp_all
  have n: "joined ''D'' = systemMessage quietEnv (''D'' @ '' joined the chat'')"
    by (simp add: joined_def)
  have st: "storageService ?s = Some (FileStorage ?fs)" by (simp add: fileServer_def)
  have h: "initialized ?fs \<and> messages ?fs = JArr [?a] \<and> findIndex (idIs JNull) [?a] = Inr (- 1)"
    by (simp add: textOf_def idIs_def)
  have d: "trim ''D'' \<noteq> []" by (simp add: trim_def whiteSpace_def)
  have w: "trim ?blank = []" by (simp add: trim_def whiteSpace_def)
  have o: "broadcast (joined ''D'') (Some 4) threeUsers
             = [(1, MessageFrame (joined ''D'')), (2, MessageFrame (joined ''D''))]"
    by (simp add: broadcast_def getAllSessions_def threeUsers_def fileServer_def sessionOf_def)
  note flow = login_flow [where e = quietEnv and e' = quietEnv and e'' = quietEnv and w = 4
      and s = ?s and s' = ?s and s'' = threeUsers and st = "FileStorage ?fs"
      and st' = "FileStorage ?fs" and result = "Inr [?a]" and fs = ?fs and items = "[?a]"
      and c = 1 and f = "MessageFrame (joined ''D'')", OF t u refl n]
  have q: "storage_getMessagesBefore quietEnv JNull 50 (FileStorage ?fs)
             = (Inr [?a], FileStorage ?fs)"
    using flow h by simp
  have a1: "snd (handleMessage_begin quietEnv 4 (Parsed ?m) ?s)
     = ([(4, LoginSuccess ''D'')], Some (AwaitInitialHistory 4 ''D'' (Inr [?a])))"
    using flow d st unfolding q by simp
  have a2: "snd (resumeHandler quietEnv (AwaitInitialHistory 4 ''D'' (Inr [?a])) ?s)
     = ([(4, HistoryResponse [?a] False)], Some (AwaitSave (joined ''D'') (Some 4)))"
    using flow st by simp
  have a3: "resumeHandler quietEnv (AwaitSave (joined ''D'') (Some 4)) threeUsers
     = (threeUsers, [(1, MessageFrame (joined ''D'')), (2, MessageFrame (joined ''D''))], None)"
    using flow unfolding o by simp
  have b: "handleMessage_begin quietEnv 4 (Parsed ?b) threeUsers
     = (threeUsers, [(4, ErrorFrame ''Invalid user ID'' None)], None)"
    using login_flow [where e = quietEnv and w = 4 and s = threeUsers, OF tb ub refl refl] w
    by simp
  from a1 a2 a3 b show ?thesis by (simp add: loginOf_def)
qed

text \<open>The claim as stated has every successful login followed by a HISTORY_RESPONSE and
  the notice sent to all other sessions registered at the login. With an empty store no
  HISTORY_RESPONSE is sent, and the session of C, whose connection is no longer open,
  gets no notice. And when B leaves while the login of D awaits the write of the notice,
  the broadcast that follows goes to A alone.\<close>

theorem login_empty_store_counterexample:
  "snd (handleMessage quietEnv 4 (loginOf ''D'') threeUsers)
     = [(4, LoginSuccess ''D''), (1, MessageFrame (joined ''D'')), (2, MessageFrame (joined ''D''))]
   \<and> snd (run [(quietEnv, Message 4 (loginOf ''D'')), (quietEnv, Resume 0), (quietEnv, Close 2)]
             (threeUsers, []))
       = [AwaitSave (joined ''D'') (Some 4),
          AwaitSave (systemMessage quietEnv ''B left the chat'') None]
   \<and> fst (snd (resumeHandler quietEnv (AwaitSave (joined ''D'') (Some 4))
                  (fst (run [(quietEnv, Message 4 (loginOf ''D'')), (quietEnv, Resume 0),
                             (quietEnv, Close 2)] (threeUsers, [])))))
       = [(1, MessageFrame (joined ''D''))]"
  by (simp add: run_def suspend_def handleMessage_def settle_def handleMessage_begin_def
      validateMessage_def handleLogin_def handleClose_def saveThenBroadcast_def boundUserId_def
      broadcast_def getAllSessions_def createSession_def removeSession_def systemMessage_def
      getMessagesBefore_def saveMessage_def slice_def idIs_def trim_def whiteSpace_def Let_def
      loginOf_def joined_def threeUsers_def fileServer_def sessionOf_def quietEnv_def)

section \<open>Failing reads\<close>









section \<open>The registry\<close>

lemma set_update_subset: "set (AList.update k v al) \<subseteq> insert (k, v) (set al)"
  by (induction al) auto

lemma registryOk_update:
  assumes "registryOk ss" and "userId v = u"
  shows "registryOk (AList.update u v ss)"
  unfolding registryOk_def
proof (intro conjI ballI)
  show "distinct (map fst (AList.update u v ss))"
    using assms(1) by (simp add: registryOk_def distinct_update)
next
  fix p assume "p \<in> set (AList.update u v ss)"
  then have "p = (u, v) \<or> p \<in> set ss" using set_update_subset [of u v ss] by blast
  then show "userId (snd p) = fst p" using assms by (auto simp: registryOk_def)
qed

lemma registryOk_createSession: "registryOk ss \<Longrightarrow> registryOk (createSession u w t ss)"
  by (simp add: createSession_def registryOk_update)

lemma registryOk_updateActivity: "registryOk ss \<Longrightarrow> registryOk (updateActivity u t ss)"
proof -
  assume ok: "registryOk ss"
  show ?thesis
  proof (cases "map_of ss u")
    case None
    then show ?thesis using ok by (simp add: updateActivity_def)
  next
    case (Some x)
    then have "(u, x) \<in> set ss" by (rule map_of_SomeD)
    then have "userId x = u" using ok by (auto simp: registryOk_def)
    then show ?thesis
      using ok Some by (simp add: updateActivity_def registryOk_update)
  qed
qed

lemma registryOk_removeSession:
  assumes "registryOk ss"
  shows "registryOk (removeSession u ss)"
  unfolding registryOk_def removeSession_def
proof (intro conjI ballI)
  show "distinct (map fst (AList.delete u ss))"
    using assms by (simp add: registryOk_def distinct_delete)
next
  fix p assume "p \<in> set (AList.delete u ss)"
  then have "p \<in> set ss" by (simp add: AList.delete_eq)
  then show "userId (snd p) = fst p" using assms by (auto simp: registryOk_def)
qed

lemma sessions_handleTextMessage:
  "sessions (fst (handleTextMessage e w data s)) = sessions s
   \<or> (\<exists>u. sessions (fst (handleTextMessage e w data s)) = updateActivity u (now e) (sessions s))"
  by (auto simp: handleTextMessage_def Let_def split: option.splits jsval.splits)

lemma sessions_handleMediaMessage:
  "sessions (fst (handleMediaMessage e w data s)) = sessions s
   \<or> (\<exists>u. sessions (fst (handleMediaMessage e w data s)) = updateActivity u (now e) (sessions s))"
  by (auto simp: handleMediaMessage_def Let_def split: option.splits jsval.splits)

lemma sessions_handleLogin:
  "handleLogin e w m s = Inr r \<Longrightarrow>
   sessions (fst r) = sessions s \<or> (\<exists>u. sessions (fst r) = createSession u w (now e) (sessions s))"
  by (auto simp: handleLogin_def Let_def case_prod_beta split: if_splits jsval.splits option.splits)

lemma sessions_handleGetHistory: "sessions (fst (handleGetHistory e w m s)) = sessions s"
  by (auto simp: handleGetHistory_def Let_def split: option.splits prod.splits sum.splits)

lemma sessions_resumeHandler: "sessions (fst (resumeHandler e k s)) = sessions s"
  by (cases k) (simp_all add: case_prod_beta)

lemma registryOk_begin:
  assumes "registryOk (sessions s)"
  shows "registryOk (sessions (fst (handleMessage_begin e w p s)))"
proof (cases p)
  case Unparseable
  then show ?thesis using assms by (simp add: handleMessage_begin_def)
next
  case (Parsed m)
  show ?thesis
  proof (cases "validateMessage m")
    case (Some err)
    then show ?thesis using assms Parsed by (simp add: handleMessage_begin_def)
  next
    case None
    then obtain t where t: "getProp m ''type'' = JStr t" using validateMessage_type by blast
    have c: "registryOk (sessions (fst (handleTextMessage e w m s)))"
      "registryOk (sessions (fst (handleMediaMessage e w m s)))"
      using sessions_handleTextMessage [of e w m s] sessions_handleMediaMessage [of e w m s]
        assms registryOk_updateActivity
      by auto
    have l: "registryOk (sessions (fst r))" if "handleLogin e w m s = Inr r" for r
      using sessions_handleLogin [OF that] assms registryOk_createSession by auto
    show ?thesis
      using None t Parsed assms c l
      by (auto simp: handleMessage_begin_def sessions_handleGetHistory split: sum.splits)
  qed
qed

lemma registryOk_step:
  "registryOk (sessions (fst b)) \<Longrightarrow> registryOk (sessions (fst (step ev b)))"
proof (cases ev)
  case (Pair e a)
  assume ok: "registryOk (sessions (fst b))"
  obtain s waiting where b: "b = (s, waiting)" by (cases b)
  show ?thesis
  proof (cases a)
    case (Message w p)
    then show ?thesis
      using Pair ok b registryOk_begin [of s e w p] by (simp add: case_prod_beta)
  next
    case (Resume i)
    then show ?thesis
      using Pair ok b by (simp add: case_prod_beta sessions_resumeHandler)
  next
    case (Close w)
    then show ?thesis using Pair ok b
      by (auto simp: handleClose_def case_prod_beta registryOk_removeSession split: option.splits)
  next
    case (Pong w)
    then show ?thesis using Pair ok b
      by (auto simp: handlePong_def registryOk_updateActivity split: option.splits)
  next
    case (Transport w state)
    then show ?thesis using Pair ok b by simp
  qed
qed

lemma registryOk_run:
  "registryOk (sessions (fst b)) \<Longrightarrow> registryOk (sessions (fst (run evs b)))"
  unfolding run_def by (induction evs arbitrary: b) (auto simp: registryOk_step)

lemma map_fst_update: "map_of al k = Some x \<Longrightarrow> map fst (AList.update k v al) = map fst al"
  by (induction al) (auto split: if_splits)

text \<open>
  C8, as amended. In every state reached from an empty registry by messages, handlers
  that go on after an \<^verbatim>\<open>await\<close>, closes, pongs and changes of connection state, in any
  order, no user id is bound twice and every entry holds the session of its key. A
  valid LOGIN for a user id that is already bound replaces the entry in place: the user
  id is then bound to the new connection, the keys of the registry are as before, no
  connection changes its state, and the earlier connection is sent nothing but, at most,
  the joined notice.
\<close>

theorem registry_invariant:
  assumes "sessions s0 = []" and "run evs (s0, waiting0) = (s, waiting)"
  shows "registryOk (sessions s)
       \<and> (getProp m ''type'' = JStr ''LOGIN'' \<and> getProp m ''userId'' = JStr u \<and> trim u \<noteq> []
            \<and> getSession u (sessions s) = Some earlier \<longrightarrow>
          map_option (\<lambda>x. (userId x, ws x))
              (getSession u (sessions (fst (handleMessage e w (Parsed m) s)))) = Some (u, w)
          \<and> map fst (sessions (fst (handleMessage e w (Parsed m) s))) = map fst (sessions s)
          \<and> readyState (fst (handleMessage e w (Parsed m) s)) = readyState s
          \<and> (\<forall>f. (ws earlier, f) \<in> set (snd (handleMessage e w (Parsed m) s)) \<longrightarrow>
                f = MessageFrame (systemMessage e (u @ '' joined the chat'')) \<or> ws earlier = w))"
proof (intro conjI impI)
  have "registryOk (sessions (fst (s0, waiting0)))" using assms(1) by (simp add: registryOk_def)
  then have "registryOk (sessions (fst (run evs (s0, waiting0))))" by (rule registryOk_run)
  then show "registryOk (sessions s)" using assms(2) by simp
next
  assume a: "getProp m ''type'' = JStr ''LOGIN'' \<and> getProp m ''userId'' = JStr u \<and> trim u \<noteq> []
            \<and> getSession u (sessions s) = Some earlier"
  then have t: "trim u \<noteq> []" and ty: "getProp m ''type'' = JStr ''LOGIN''"
    and uid: "getProp m ''userId'' = JStr u" and g: "map_of (sessions s) u = Some earlier"
    by (simp_all add: getSession_def)
  obtain history where out: "snd (handleMessage e w (Parsed m) s) =
            [(w, LoginSuccess u)] @ history
            @ broadcast (systemMessage e (u @ '' joined the chat'')) (Some w)
                (s\<lparr>sessions := createSession u w (now e) (sessions s)\<rparr>)"
    and h: "history = []
               \<or> (\<exists>msgs. msgs \<noteq> [] \<and> history = [(w, HistoryResponse msgs (length msgs = 50))])"
    and ss: "sessions (fst (handleMessage e w (Parsed m) s)) = createSession u w (now e) (sessions s)"
    and rs: "readyState (fst (handleMessage e w (Parsed m) s)) = readyState s"
    using handleMessage_login [OF ty uid t, of e w s] by blast
  show "map_option (\<lambda>x. (userId x, ws x))
              (getSession u (sessions (fst (handleMessage e w (Parsed m) s)))) = Some (u, w)"
    by (simp add: ss getSession_def createSession_def update_conv')
  show "map fst (sessions (fst (handleMessage e w (Parsed m) s))) = map fst (sessions s)"
    using g by (simp add: ss createSession_def map_fst_update)
  show "readyState (fst (handleMessage e w (Parsed m) s)) = readyState s"
    by (rule rs)
  show "\<forall>f. (ws earlier, f) \<in> set (snd (handleMessage e w (Parsed m) s)) \<longrightarrow>
                f = MessageFrame (systemMessage e (u @ '' joined the chat'')) \<or> ws earlier = w"
    using h unfolding out by (auto simp: broadcast_member)
qed

theorem registry_invariant_witness:
  "registryOk (sessions (fst (run [(quietEnv, Message 1 (loginOf ''A''))] (noUsers, []))))
   \<and> map_option (\<lambda>x. (userId x, ws x))
         (getSession ''A''
            (sessions (fst (handleMessage quietEnv 2 (loginOf ''A'')
                             (fst (run [(quietEnv, Message 1 (loginOf ''A''))] (noUsers, [])))))))
       = Some (''A'', 2)
   \<and> map fst (sessions (fst (handleMessage quietEnv 2 (loginOf ''A'')
                             (fst (run [(quietEnv, Message 1 (loginOf ''A''))] (noUsers, []))))))
       = [''A'']
   \<and> readyState (fst (handleMessage quietEnv 2 (loginOf ''A'')
                        (fst (run [(quietEnv, Message 1 (loginOf ''A''))] (noUsers, []))))) 1
       = 1"
proof -
  let ?evs = "[(quietEnv, Message 1 (loginOf ''A''))]"
  let ?m = "JObj [(''type'', JStr ''LOGIN''), (''userId'', JStr ''A'')]"
  let ?earlier = "\<lparr>userId = ''A'', ws = 1, connectedAt = 1000, lastActivity = 1000\<rparr>"
  obtain s waiting where r: "run ?evs (noUsers, []) = (s, waiting)"
    by (cases "run ?evs (noUsers, [])")
  have e: "sessions noUsers = []" by (simp add: noUsers_def fileServer_def)
  have s1: "sessions (fst (run ?evs (noUsers, []))) = [(''A'', ?earlier)]"
    by (simp add: run_def handleMessage_begin_def validateMessage_def handleLogin_def
      createSession_def getMessagesBefore_def slice_def idIs_def trim_def whiteSpace_def Let_def
      loginOf_def noUsers_def fileServer_def quietEnv_def case_prod_beta)
  have r1: "readyState (fst (run ?evs (noUsers, []))) 1 = 1"
    by (simp add: run_def handleMessage_begin_def validateMessage_def handleLogin_def
      createSession_def getMessagesBefore_def slice_def idIs_def trim_def whiteSpace_def Let_def
      loginOf_def noUsers_def fileServer_def quietEnv_def case_prod_beta)
  have s: "sessions s = [(''A'', ?earlier)]" and rs: "readyState s 1 = 1"
    using s1 r1 unfolding r by simp_all
  have h: "getProp ?m ''type'' = JStr ''LOGIN'' \<and> getProp ?m ''userId'' = JStr ''A'' \<and> trim ''A'' \<noteq> []
            \<and> getSession ''A'' (sessions s) = Some ?earlier"
    unfolding s by (simp add: getSession_def trim_def whiteSpace_def)
  have "registryOk (sessions s)
   \<and> map_option (\<lambda>x. (userId x, ws x))
         (getSession ''A'' (sessions (fst (handleMessage quietEnv 2 (Parsed ?m) s)))) = Some (''A'', 2)
   \<and> map fst (sessions (fst (handleMessage quietEnv 2 (Parsed ?m) s))) = [''A'']
   \<and> readyState (fst (handleMessage quietEnv 2 (Parsed ?m) s)) 1 = 1"
    using registry_invariant [OF e r, of ?m "''A''" ?earlier quietEnv 2] h rs
    unfolding s by simp
  then show ?thesis unfolding r by (simp add: loginOf_def)
qed

text \<open>The claim as stated gives every connection at most one session. Two logins on
  connection 1 under different user ids leave it bound to both.\<close>

theorem one_connection_two_sessions_counterexample:
  "map (\<lambda>p. (fst p, ws (snd p)))
     (sessions (fst (run [(quietEnv, Message 1 (loginOf ''A'')), (quietEnv, Resume 0),
                          (quietEnv, Resume 0), (quietEnv, Message 1 (loginOf ''B''))]
                       (noUsers, []))))
   = [(''A'', 1), (''B'', 1)]"
  by (simp add: run_def suspend_def handleMessage_begin_def validateMessage_def handleLogin_def
      saveThenBroadcast_def broadcast_def getAllSessions_def systemMessage_def createSession_def
      getMessagesBefore_def saveMessage_def slice_def idIs_def trim_def whiteSpace_def Let_def
      loginOf_def noUsers_def fileServer_def quietEnv_def case_prod_beta)

section \<open>The inbound queue\<close>

lemma finished_append [simp]: "finished (l @ l') = finished l @ finished l'"
  by (induction l rule: finished.induct) auto

lemma finished_sequential [simp]: "finished (sequential xs cur) = xs"
  by (induction xs) (auto simp: comp_def, induction cur, auto)

lemma sequential_done: "sequential xs [x] @ [Done x] = sequential (xs @ [x]) []"
  by (induction xs) auto

lemma sequential_begin: "sequential xs [] @ [Begin x] = sequential xs [x]"
  by (induction xs) auto

lemma queueOk_init: "queueOk handleConnection"
  by (simp add: queueOk_def handleConnection_def)

lemma queueOk_drains: "queueOk c \<Longrightarrow> drains c = [] \<or> (\<exists>x. drains c = [x])"
  by (cases "drains c") (auto simp: queueOk_def)

lemma queueOk_enqueue:
  assumes "queueOk c"
  shows "queueOk (enqueueMessage d c)"
proof (cases "hasQueue c")
  case False
  then show ?thesis using assms by (simp add: enqueueMessage_def)
next
  case True
  show ?thesis
  proof (cases "processing c")
    case busy: True
    then show ?thesis using assms True
      by (simp add: enqueueMessage_def processMessageQueue_def queueOk_def)
  next
    case idle: False
    then have "drains c = []" "queue c = []" using assms by (auto simp: queueOk_def)
    then show ?thesis using assms True idle sequential_begin [of "finished (log c)" d]
      by (simp add: enqueueMessage_def processMessageQueue_def queueOk_def)
  qed
qed

lemma queueOk_resume:
  assumes "queueOk c"
  shows "queueOk (resume i c)"
proof (cases "i < length (drains c)")
  case False
  then show ?thesis using assms by (simp add: resume_def)
next
  case True
  then obtain x where x: "drains c = [x]" and i: "i = 0"
    using queueOk_drains [OF assms] by auto
  have l: "log c = sequential (finished (log c)) [x]" using assms x by (simp add: queueOk_def)
  show ?thesis
  proof (cases "queue c")
    case Nil
    then show ?thesis
      using assms x i sequential_done [of "finished (log c)" x] l
      by (simp add: resume_def queueOk_def Let_def)
  next
    case (Cons y rest)
    have "log c @ [Done x, Begin y] = sequential (finished (log c) @ [x]) [y]"
      using sequential_done [of "finished (log c)" x] l
        sequential_begin [of "finished (log c) @ [x]" y]
      by (metis append.assoc append_Cons append_Nil)
    then show ?thesis
      using assms x i Cons
      by (simp add: resume_def queueOk_def Let_def)
  qed
qed

lemma queueOk_step: "queueOk c \<Longrightarrow> queueOk (queue_step ev c)"
  by (cases ev) (simp_all add: queueOk_enqueue queueOk_resume, simp add: cleanupConnection_def queueOk_def)

lemma queueOk_fold: "queueOk c \<Longrightarrow> queueOk (fold queue_step evs c)"
  by (induction evs arbitrary: c) (auto simp: queueOk_step)

text \<open>Progress: settling the running call as often as there are payloads left drains
  the queue.\<close>

lemma drain_progress:
  assumes "queueOk c" and "processing c"
  shows "\<not> processing (fold queue_step (replicate (Suc (length (queue c))) (Settled 0)) c)
       \<and> finished (log (fold queue_step (replicate (Suc (length (queue c))) (Settled 0)) c)) = arrived c"
  using assms
proof (induction "length (queue c)" arbitrary: c)
  case 0
  then obtain x where x: "drains c = [x]" using queueOk_drains [of c] by (auto simp: queueOk_def)
  with 0 show ?case by (simp add: resume_def queueOk_def Let_def)
next
  case (Suc n)
  then obtain x where x: "drains c = [x]" using queueOk_drains [of c] by (auto simp: queueOk_def)
  obtain y rest where q: "queue c = y # rest" using Suc.hyps(2) by (cases "queue c") auto
  let ?c = "resume 0 c"
  have ok: "queueOk ?c" using Suc.prems(1) by (rule queueOk_resume)
  have r: "processing ?c" "queue ?c = rest" "arrived ?c = arrived c"
    using x q Suc.prems by (simp_all add: resume_def Let_def)
  have n: "n = length (queue ?c)" using r q Suc.hyps(2) by simp
  from Suc.hyps(1) [OF n ok r(1)] r q show ?case by simp
qed

text \<open>
  C9. After any sequence of arrivals, settled calls and a close, the connection has at
  most one suspended invocation of \<open>processMessageQueue\<close>, \<open>processing\<close> is set exactly
  when there is one, the payloads that arrived are the ones done, the one in progress
  and the ones queued, in this order, and each payload began and was done before the next
  began. While an invocation is in progress an arriving payload starts no second one and
  is appended to the queue, and the invocation in progress handles every payload that
  has arrived before it leaves.
\<close>

theorem fifo_single_drain:
  "queueOk (queue_run evs)
   \<and> (processing (queue_run evs) \<longrightarrow>
        drains (enqueueMessage d (queue_run evs)) = drains (queue_run evs)
        \<and> (hasQueue (queue_run evs) \<longrightarrow>
             queue (enqueueMessage d (queue_run evs)) = queue (queue_run evs) @ [d])
        \<and> \<not> processing (queue_run (evs @ replicate (Suc (length (queue (queue_run evs)))) (Settled 0)))
        \<and> finished (log (queue_run (evs @ replicate (Suc (length (queue (queue_run evs)))) (Settled 0))))
             = arrived (queue_run evs))"
proof (intro conjI impI)
  show ok: "queueOk (queue_run evs)"
    unfolding queue_run_def by (rule queueOk_fold [OF queueOk_init])
  assume p: "processing (queue_run evs)"
  show "drains (enqueueMessage d (queue_run evs)) = drains (queue_run evs)"
    using p by (simp add: enqueueMessage_def processMessageQueue_def)
  show "queue (enqueueMessage d (queue_run evs)) = queue (queue_run evs) @ [d]"
    if "hasQueue (queue_run evs)"
    using p that by (simp add: enqueueMessage_def processMessageQueue_def)
  show "\<not> processing (queue_run (evs @ replicate (Suc (length (queue (queue_run evs)))) (Settled 0)))"
    using drain_progress [OF ok p] by (simp add: queue_run_def)
  show "finished (log (queue_run (evs @ replicate (Suc (length (queue (queue_run evs)))) (Settled 0))))
             = arrived (queue_run evs)"
    using drain_progress [OF ok p] by (simp add: queue_run_def)
qed

theorem fifo_single_drain_witness:
  "processing (queue_run [OnMessage (1::nat), OnMessage 2])
   \<and> drains (enqueueMessage 3 (queue_run [OnMessage (1::nat), OnMessage 2])) = [1]
   \<and> queue (enqueueMessage 3 (queue_run [OnMessage (1::nat), OnMessage 2])) = [2, 3]
   \<and> log (queue_run [OnMessage (1::nat), OnMessage 2, Settled 0, Settled 0])
       = [Begin 1, Done 1, Begin 2, Done 2]
   \<and> \<not> processing (queue_run [OnMessage (1::nat), OnMessage 2, Settled 0, Settled 0])"
proof -
  let ?evs = "[OnMessage (1::nat), OnMessage 2]"
  have r: "queue_run ?evs = \<lparr>hasQueue = True, queue = [2], processing = True, drains = [1],
                              arrived = [1, 2], log = [Begin 1]\<rparr>"
    by (simp add: queue_run_def enqueueMessage_def processMessageQueue_def handleConnection_def)
  have l: "log (queue_run [OnMessage (1::nat), OnMessage 2, Settled 0, Settled 0])
       = [Begin 1, Done 1, Begin 2, Done 2]"
    by (simp add: queue_run_def enqueueMessage_def processMessageQueue_def handleConnection_def
        resume_def Let_def)
  have e: "?evs @ replicate (Suc (length (queue (queue_run ?evs)))) (Settled 0)
            = [OnMessage 1, OnMessage 2, Settled 0, Settled 0]"
    unfolding r by simp
  show ?thesis
    using fifo_single_drain [of ?evs 3] l unfolding e r by simp
qed

end
